theory Spec2Isabelle
  imports Main "HOL-Library.Word" "HOL-Library.Signed_Division"
begin

unbundle bit_operations_syntax

section \<open>Data model of routing/pathfind.go\<close>

text \<open>
  \<^verbatim>\<open>lnwire.MilliSatoshi\<close> is an unsigned 64-bit integer: \<^verbatim>\<open>computeFee\<close> multiplies and divides
  it in place and \<^verbatim>\<open>edgeWeight\<close> converts it with \<^verbatim>\<open>int64(...)\<close>. All arithmetic on it
  wraps modulo \<open>2 ^ 64\<close>, as Go's does. A \<^verbatim>\<open>Vertex\<close> is a \<^verbatim>\<open>[33]byte\<close> array compared
  bytewise.
\<close>

type_synonym MilliSatoshi = "64 word"

type_synonym Vertex = "8 word list"

text \<open>
  \<^verbatim>\<open>Hop\<close> (lines 87-104). The field \<^verbatim>\<open>ChannelID\<close> is written \<open>HopChannelID\<close> here, since
  the edge policy below has a field of the same name.
\<close>

record Hop =
  PubKeyBytes :: Vertex
  HopChannelID :: "64 word"
  OutgoingTimeLock :: "32 word"
  AmtToForward :: MilliSatoshi

text \<open>
  \<^verbatim>\<open>channeldb.ChannelEdgePolicy\<close>, with the fields that pathfind.go reads. \<open>Node\<close> stands for
  \<^verbatim>\<open>edge.Node.PubKeyBytes\<close>, the vertex the edge leads to. The fee fields have the type of
  the amounts they are added to and multiplied with in \<^verbatim>\<open>computeFee\<close>.
\<close>

record ChannelEdgePolicy =
  ChannelID :: "64 word"
  Node :: Vertex
  TimeLockDelta :: "16 word"
  MinHTLC :: MilliSatoshi
  FeeBaseMSat :: MilliSatoshi
  FeeProportionalMillionths :: MilliSatoshi
  ChannelFlags :: "8 word"

text \<open>\<^verbatim>\<open>Route\<close> (lines 184-221); the two index maps have unit values, so they are sets.\<close>

record Route =
  TotalTimeLock :: "32 word"
  TotalFees :: MilliSatoshi
  TotalAmount :: MilliSatoshi
  SourcePubKey :: Vertex
  Hops :: "Hop list"
  nodeIndex :: "Vertex set"
  chanIndex :: "64 word set"

text \<open>The error kinds that the functions of pathfind.go return.\<close>

datatype error =
    ErrNoRouteHopsProvided
  | ErrFeeLimitExceeded
  | ErrNoPathFound
  | ErrMaxHopsExceeded
  | ErrNoRouteFound
  | ErrPegNotInNetwork
  | ErrGraph

definition HopLimit :: nat where
  "HopLimit = 20"

definition RiskFactorBillionths :: "64 word" where
  "RiskFactorBillionths = 15"

definition noFeeLimit :: MilliSatoshi where
  "noFeeLimit = 4294967295"

section \<open>Fee and weight arithmetic\<close>

text \<open>
  \<^verbatim>\<open>computeFee\<close> (lines 117-121): unsigned 64-bit multiplication, division and addition.
\<close>

definition computeFee :: "MilliSatoshi \<Rightarrow> ChannelEdgePolicy \<Rightarrow> MilliSatoshi" where
  "computeFee amt edge =
     FeeBaseMSat edge + (amt * FeeProportionalMillionths edge) div 1000000"

text \<open>
  Go's \<^verbatim>\<open>/\<close> on \<^verbatim>\<open>int64\<close> truncates towards zero; the quotient is stored in 64 bits again.
\<close>

definition int64_quo :: "64 word \<Rightarrow> 64 word \<Rightarrow> 64 word" where
  "int64_quo a b = word_of_int (sint a sdiv sint b)"

text \<open>
  \<^verbatim>\<open>edgeWeight\<close> (lines 461-471). The conversions \<^verbatim>\<open>int64(lockedAmt)\<close> and \<^verbatim>\<open>int64(fee)\<close>
  keep the 64 bits; \<^verbatim>\<open>int64(timeLockDelta)\<close> widens a \<^verbatim>\<open>uint16\<close>. The product is
  evaluated left to right in \<^verbatim>\<open>int64\<close>, then divided. The result is an \<^verbatim>\<open>int64\<close>, read
  with \<open>sint\<close>.
\<close>

definition edgeWeight :: "MilliSatoshi \<Rightarrow> MilliSatoshi \<Rightarrow> 16 word \<Rightarrow> 64 word" where
  "edgeWeight lockedAmt fee timeLockDelta =
     (let timeLockPenalty =
            int64_quo (lockedAmt * ucast timeLockDelta * RiskFactorBillionths) 1000000000
      in fee + timeLockPenalty)"

text \<open>\<^verbatim>\<open>computePathFee\<close> (lines 123-160): the loop body at index \<open>i\<close>, on \<^verbatim>\<open>nextIncomingAmount\<close>.\<close>

definition computePathFee_body ::
  "MilliSatoshi \<Rightarrow> ChannelEdgePolicy list \<Rightarrow> nat \<Rightarrow> MilliSatoshi \<Rightarrow> MilliSatoshi" where
  "computePathFee_body amt pathEdges i nextIncomingAmount =
     (let amtToForward = (if i \<noteq> length pathEdges - 1 then nextIncomingAmount else amt);
          fee = (if i \<noteq> length pathEdges - 1
                 then computeFee amtToForward (pathEdges ! (i + 1)) else 0)
      in amtToForward + fee)"

text \<open>
  The loop \<^verbatim>\<open>for i := pathLength - 1; i >= 0; i--\<close>: with counter \<open>Suc i\<close> the body runs at
  index \<open>i\<close>, then the loop goes on below \<open>i\<close>.
\<close>

primrec computePathFee_loop ::
  "MilliSatoshi \<Rightarrow> ChannelEdgePolicy list \<Rightarrow> nat \<Rightarrow> MilliSatoshi \<Rightarrow> MilliSatoshi" where
  "computePathFee_loop amt pathEdges 0 nextIncomingAmount = nextIncomingAmount"
| "computePathFee_loop amt pathEdges (Suc i) nextIncomingAmount =
     computePathFee_loop amt pathEdges i
       (computePathFee_body amt pathEdges i nextIncomingAmount)"

definition computePathFee :: "MilliSatoshi \<Rightarrow> ChannelEdgePolicy list \<Rightarrow> MilliSatoshi" where
  "computePathFee amt pathEdges =
     computePathFee_loop amt pathEdges (length pathEdges) 0 - amt"

section \<open>Route construction\<close>

text \<open>
  \<^verbatim>\<open>NewRouteFromHops\<close> (lines 405-436). The range loop fills the two indexes.
\<close>

definition NewRouteFromHops ::
  "MilliSatoshi \<Rightarrow> 32 word \<Rightarrow> Vertex \<Rightarrow> Hop list \<Rightarrow> error + Route" where
  "NewRouteFromHops amtToSend timeLock sourceVertex hops =
     (if length hops = 0 then Inl ErrNoRouteHopsProvided
      else Inr \<lparr>TotalTimeLock = timeLock,
                TotalFees = amtToSend - AmtToForward (hops ! (length hops - 1)),
                TotalAmount = amtToSend,
                SourcePubKey = sourceVertex,
                Hops = hops,
                nodeIndex = fold (\<lambda>hop ix. insert (PubKeyBytes hop) ix) hops {},
                chanIndex = fold (\<lambda>hop ix. insert (HopChannelID hop) ix) hops {}\<rparr>)"

text \<open>The variables of \<^verbatim>\<open>newRoute\<close> that its loop updates (lines 296-309).\<close>

record newRoute_vars =
  hops :: "Hop list"
  totalTimeLock :: "32 word"
  nextIncomingAmount :: MilliSatoshi

text \<open>The body of the loop of \<^verbatim>\<open>newRoute\<close> at index \<open>i\<close> (lines 313-381).\<close>

definition newRoute_body ::
  "MilliSatoshi \<Rightarrow> ChannelEdgePolicy list \<Rightarrow> 32 word \<Rightarrow> 16 word \<Rightarrow> nat \<Rightarrow>
   newRoute_vars \<Rightarrow> newRoute_vars" where
  "newRoute_body amtToSend pathEdges currentHeight finalCLTVDelta i st =
     (let edge = pathEdges ! i;
          amtToForward =
            (if i \<noteq> length pathEdges - 1 then nextIncomingAmount st else amtToSend);
          fee = (if i \<noteq> length pathEdges - 1
                 then computeFee amtToForward (pathEdges ! (i + 1)) else 0);
          (total, outgoingTimeLock) =
            (if i = length pathEdges - 1
             then (totalTimeLock st + ucast finalCLTVDelta,
                   currentHeight + ucast finalCLTVDelta)
             else (let delta = ucast (TimeLockDelta (pathEdges ! (i + 1)));
                       total' = totalTimeLock st + delta
                   in (total', total' - delta)));
          currentHop = \<lparr>PubKeyBytes = Node edge,
                        HopChannelID = ChannelID edge,
                        OutgoingTimeLock = outgoingTimeLock,
                        AmtToForward = amtToForward\<rparr>
      in \<lparr>hops = currentHop # hops st,
          totalTimeLock = total,
          nextIncomingAmount = amtToForward + fee\<rparr>)"

primrec newRoute_loop ::
  "MilliSatoshi \<Rightarrow> ChannelEdgePolicy list \<Rightarrow> 32 word \<Rightarrow> 16 word \<Rightarrow> nat \<Rightarrow>
   newRoute_vars \<Rightarrow> newRoute_vars" where
  "newRoute_loop amtToSend pathEdges currentHeight finalCLTVDelta 0 st = st"
| "newRoute_loop amtToSend pathEdges currentHeight finalCLTVDelta (Suc i) st =
     newRoute_loop amtToSend pathEdges currentHeight finalCLTVDelta i
       (newRoute_body amtToSend pathEdges currentHeight finalCLTVDelta i st)"

text \<open>\<^verbatim>\<open>newRoute\<close> (lines 292-400).\<close>

definition newRoute ::
  "MilliSatoshi \<Rightarrow> MilliSatoshi \<Rightarrow> Vertex \<Rightarrow> ChannelEdgePolicy list \<Rightarrow> 32 word \<Rightarrow>
   16 word \<Rightarrow> error + Route" where
  "newRoute amtToSend feeLimit sourceVertex pathEdges currentHeight finalCLTVDelta =
     (let st = newRoute_loop amtToSend pathEdges currentHeight finalCLTVDelta
                 (length pathEdges)
                 \<lparr>hops = [], totalTimeLock = currentHeight, nextIncomingAmount = 0\<rparr>
      in case NewRouteFromHops (nextIncomingAmount st) (totalTimeLock st) sourceVertex
                (hops st) of
           Inl err \<Rightarrow> Inl err
         | Inr newRoute \<Rightarrow>
             if TotalFees newRoute > feeLimit then Inl ErrFeeLimitExceeded
             else Inr newRoute)"

section \<open>The heaps\<close>

text \<open>
  The two priority queues of pathfind.go are \<^verbatim>\<open>distanceHeap\<close> and \<^verbatim>\<open>pathHeap\<close>, driven by
  Go's \<^verbatim>\<open>container/heap\<close>. Their declarations are in the package's heap.go and not in
  pathfind.go.

  Modelled from the spec: \<^verbatim>\<open>distanceHeap\<close> and \<^verbatim>\<open>pathHeap\<close> (system overview, component 2:
  two priority queues, one keyed by cumulative weight for Dijkstra, one keyed by hop count
  for candidate K-paths). Each is a slice whose \<^verbatim>\<open>Less i j\<close> compares the \<^verbatim>\<open>dist\<close> fields of the
  elements at \<open>i\<close> and \<open>j\<close>, whose \<^verbatim>\<open>Push\<close> appends and whose \<^verbatim>\<open>Pop\<close> removes the last element.
  The functions below are those of \<^verbatim>\<open>container/heap\<close> on such a slice, with the order
  \<open>lt\<close> on elements as a parameter.
\<close>

definition heap_swap :: "'a list \<Rightarrow> nat \<Rightarrow> nat \<Rightarrow> 'a list" where
  "heap_swap h i j = h[i := h ! j, j := h ! i]"

text \<open>
  \<^verbatim>\<open>up(h, j)\<close>: \<^verbatim>\<open>for { i := (j - 1) / 2; if i == j || !h.Less(j, i) { break };
  h.Swap(i, j); j = i }\<close>. At \<open>j = 0\<close> Go's truncating division gives \<open>i = 0\<close>, as the
  subtraction on \<open>nat\<close> does.
\<close>

function heap_up :: "('a \<Rightarrow> 'a \<Rightarrow> bool) \<Rightarrow> 'a list \<Rightarrow> nat \<Rightarrow> 'a list" where
  "heap_up lt h j =
     (let i = (j - 1) div 2
      in if i = j \<or> \<not> lt (h ! j) (h ! i) then h
         else heap_up lt (heap_swap h i j) i)"
  by pat_completeness auto
termination
  by (relation "measure (\<lambda>(lt, h, j). j)") auto

declare heap_up.simps [simp del]

text \<open>
  \<^verbatim>\<open>down(h, i0, n)\<close>: \<^verbatim>\<open>for { j1 := 2*i + 1; if j1 >= n { break }; j := j1;
  if j2 := j1 + 1; j2 < n && h.Less(j2, j1) { j = j2 }; if !h.Less(j, i) { break };
  h.Swap(i, j); i = j }\<close>. \<open>heap_child\<close> is the choice of \<open>j\<close> between the two children.
\<close>

definition heap_child :: "('a \<Rightarrow> 'a \<Rightarrow> bool) \<Rightarrow> 'a list \<Rightarrow> nat \<Rightarrow> nat \<Rightarrow> nat" where
  "heap_child lt h j1 n = (if j1 + 1 < n \<and> lt (h ! (j1 + 1)) (h ! j1) then j1 + 1 else j1)"

function heap_down :: "('a \<Rightarrow> 'a \<Rightarrow> bool) \<Rightarrow> 'a list \<Rightarrow> nat \<Rightarrow> nat \<Rightarrow> 'a list" where
  "heap_down lt h i n =
     (let j1 = 2 * i + 1
      in if j1 \<ge> n then h
         else (let j = heap_child lt h j1 n
               in if \<not> lt (h ! j) (h ! i) then h
                  else heap_down lt (heap_swap h i j) j n))"
  by pat_completeness auto
termination
  by (relation "measure (\<lambda>(lt, h, i, n). n - i)") (auto simp: heap_child_def)

declare heap_down.simps [simp del]

text \<open>\<^verbatim>\<open>heap.Push(h, x)\<close>: append, then \<^verbatim>\<open>up(h, h.Len() - 1)\<close>.\<close>

definition heap_Push :: "('a \<Rightarrow> 'a \<Rightarrow> bool) \<Rightarrow> 'a list \<Rightarrow> 'a \<Rightarrow> 'a list" where
  "heap_Push lt h x = heap_up lt (h @ [x]) (length h)"

text \<open>
  \<^verbatim>\<open>heap.Pop(h)\<close>: \<^verbatim>\<open>n := h.Len() - 1; h.Swap(0, n); down(h, 0, n); return h.Pop()\<close>. It gives
  the element and the remaining heap. On the empty heap Go panics; the callers test
  \<^verbatim>\<open>Len()\<close> first, and the model gives \<open>None\<close>.
\<close>

definition heap_Pop :: "('a \<Rightarrow> 'a \<Rightarrow> bool) \<Rightarrow> 'a list \<Rightarrow> ('a \<times> 'a list) option" where
  "heap_Pop lt h =
     (if h = [] then None
      else (let n = length h - 1;
                h' = heap_down lt (heap_swap h 0 n) 0 n
            in Some (last h', butlast h')))"

section \<open>Single-path search: edge relaxation\<close>

text \<open>
  \<^verbatim>\<open>restrictParams\<close> (lines 507-529). The edge locators are the keys of \<^verbatim>\<open>ignoredEdges\<close>; the
  function \<^verbatim>\<open>newEdgeLocator\<close> that computes them is not in pathfind.go, so the locator type
  \<open>'l\<close> and the function are parameters of the model.
\<close>

record 'l restrictParams =
  ignoredNodes :: "Vertex set"
  ignoredEdges :: "'l set"
  feeLimit :: MilliSatoshi
  outgoingChannelID :: "64 word option"
  stopAtMaxHopsExceeded :: bool

text \<open>
  The entries of the distance map, with the fields that pathfind.go reads and writes;
  \<open>dist\<close> is an \<^verbatim>\<open>int64\<close>. \<open>node\<close> is the vertex of the node, \<open>None\<close> for the nil pointer of
  Go's zero value, which a map lookup gives for a missing key.
\<close>

record nodeWithDist =
  dist :: "64 word"
  node :: "Vertex option"
  amountToReceive :: MilliSatoshi
  fee :: MilliSatoshi

definition zeroNodeWithDist :: nodeWithDist where
  "zeroNodeWithDist = \<lparr>dist = 0, node = None, amountToReceive = 0, fee = 0\<rparr>"

definition lookupDist :: "(Vertex \<rightharpoonup> nodeWithDist) \<Rightarrow> Vertex \<Rightarrow> nodeWithDist" where
  "lookupDist distance v = (case distance v of None \<Rightarrow> zeroNodeWithDist | Some d \<Rightarrow> d)"

text \<open>\<^verbatim>\<open>infinity = math.MaxInt64\<close> (line 27).\<close>

definition infinity :: "64 word" where
  "infinity = 9223372036854775807"

text \<open>\<^verbatim>\<open>Less\<close> of the distance heap: the \<^verbatim>\<open>int64\<close> distances, compared as signed numbers.\<close>

definition distLess :: "nodeWithDist \<Rightarrow> nodeWithDist \<Rightarrow> bool" where
  "distLess a b = (sint (dist a) < sint (dist b))"

text \<open>
  \<^verbatim>\<open>lnwire.ChanUpdateDisabled\<close>, the bit of the channel flags that marks a disabled edge
  (the second bit; lnwire is outside pathfind.go). The proofs below do not depend on which
  bit it is.
\<close>

definition ChanUpdateDisabled :: "8 word" where
  "ChanUpdateDisabled = 2"

text \<open>
  The variables of \<^verbatim>\<open>findPath\<close> that the closure \<^verbatim>\<open>processEdge\<close> reads and updates: the
  distance map, the map \<^verbatim>\<open>next\<close> (written \<open>nextMap\<close>) and the heap.
\<close>

record findPath_vars =
  distance :: "Vertex \<rightharpoonup> nodeWithDist"
  nextMap :: "Vertex \<rightharpoonup> ChannelEdgePolicy"
  nodeHeap :: "nodeWithDist list"

text \<open>
  \<^verbatim>\<open>processEdge\<close> (lines 631-758) in two parts, cut at the time lock test of line 738.
  \<open>processEdge_checks\<close> is lines 635-730: each early \<^verbatim>\<open>return\<close> gives \<open>None\<close>; an edge that
  passes gives the entry that line 746 would record for \<^verbatim>\<open>fromVertex\<close>.
\<close>

definition processEdge_checks ::
  "(ChannelEdgePolicy \<Rightarrow> 'l) \<Rightarrow> Vertex \<Rightarrow> 'l restrictParams \<Rightarrow> MilliSatoshi \<Rightarrow>
   Vertex \<Rightarrow> ChannelEdgePolicy \<Rightarrow> MilliSatoshi \<Rightarrow> Vertex \<Rightarrow> findPath_vars \<Rightarrow>
   nodeWithDist option" where
  "processEdge_checks newEdgeLocator originVertex r amt fromNode edge bandwidth toNode st =
     (let fromVertex = fromNode;
          isSourceChan = (fromVertex = originVertex);
          isDisabled = (ChannelFlags edge AND ChanUpdateDisabled \<noteq> 0)
      in if \<not> isSourceChan \<and> isDisabled then None
         else if isSourceChan \<and> outgoingChannelID r \<noteq> None \<and>
                 the (outgoingChannelID r) \<noteq> ChannelID edge then None
         else if fromVertex \<in> ignoredNodes r then None
         else if newEdgeLocator edge \<in> ignoredEdges r then None
         else (let toNodeDist = lookupDist (distance st) toNode;
                   amountToSend = amountToReceive toNodeDist
               in if bandwidth < amountToSend then None
                  else if amountToSend < MinHTLC edge then None
                  else (let fee' = (if fromVertex \<noteq> originVertex
                                    then computeFee amountToSend edge else 0);
                            timeLockDelta = (if fromVertex \<noteq> originVertex
                                             then TimeLockDelta edge else 0);
                            amountToReceive' = amountToSend + fee';
                            totalFee = amountToReceive' - amt
                        in if totalFee > feeLimit r then None
                           else (let weight = edgeWeight amountToReceive' fee' timeLockDelta;
                                     tempDist = dist toNodeDist + weight
                                 in if sint tempDist \<ge>
                                       sint (dist (lookupDist (distance st) fromVertex))
                                    then None
                                    else Some \<lparr>dist = tempDist, node = Some fromNode,
                                                amountToReceive = amountToReceive',
                                                fee = fee'\<rparr>))))"

text \<open>
  Lines 732-757: the test \<^verbatim>\<open>if edge.TimeLockDelta == 0 { return }\<close>, then the update of
  the distance map, of \<^verbatim>\<open>next\<close> and of the heap.
\<close>

definition processEdge ::
  "(ChannelEdgePolicy \<Rightarrow> 'l) \<Rightarrow> Vertex \<Rightarrow> 'l restrictParams \<Rightarrow> MilliSatoshi \<Rightarrow>
   Vertex \<Rightarrow> ChannelEdgePolicy \<Rightarrow> MilliSatoshi \<Rightarrow> Vertex \<Rightarrow> findPath_vars \<Rightarrow>
   findPath_vars" where
  "processEdge newEdgeLocator originVertex r amt fromNode edge bandwidth toNode st =
     (case processEdge_checks newEdgeLocator originVertex r amt fromNode edge bandwidth
             toNode st of
        None \<Rightarrow> st
      | Some d \<Rightarrow>
          if TimeLockDelta edge = 0 then st
          else st\<lparr>distance := (distance st)(fromNode \<mapsto> d),
                  nextMap := (nextMap st)(fromNode \<mapsto> edge),
                  nodeHeap := heap_Push distLess (nodeHeap st) d\<rparr>)"

section \<open>The channel graph, as pathfind.go reads it\<close>

text \<open>
  The graph store (package channeldb) is outside pathfind.go. The search reads it through
  five calls, which are the fields of the record \<open>ChannelGraph\<close> below, so the model of
  \<^verbatim>\<open>findPath\<close>, \<^verbatim>\<open>findKPaths\<close> and \<^verbatim>\<open>findPaths\<close> holds for every graph store:
  \<^item> \<open>ForEachNode\<close>: the vertices that \<^verbatim>\<open>graph.ForEachNode\<close> visits, in order;
  \<^item> \<open>ForEachChannel v\<close>: for the node \<open>v\<close>, the channels that \<^verbatim>\<open>node.ForEachChannel\<close> visits,
    each with its \<^verbatim>\<open>ChannelEdgeInfo\<close> and its incoming policy \<^verbatim>\<open>inEdge\<close> (\<open>None\<close> for nil);
  \<^item> \<open>FetchOtherNode info v\<close>: the node at the other end of the channel, or an error;
  \<^item> \<open>FetchChannelEdgesByID c\<close>: the channel's info and its two policies, or an error;
  \<^item> \<open>FetchLightningNode v\<close>: the node with this key, or an error.
  A node handle is identified with its \<^verbatim>\<open>PubKeyBytes\<close>, a public key with its \<^verbatim>\<open>Vertex\<close>.
\<close>

record ChannelEdgeInfo =
  InfoChannelID :: "64 word"
  NodeKey1Bytes :: Vertex
  NodeKey2Bytes :: Vertex
  Capacity :: "64 word"

record ChannelGraph =
  ForEachNode :: "Vertex list"
  ForEachChannel :: "Vertex \<Rightarrow> (ChannelEdgeInfo \<times> ChannelEdgePolicy option) list"
  FetchOtherNode :: "ChannelEdgeInfo \<Rightarrow> Vertex \<Rightarrow> error + Vertex"
  FetchChannelEdgesByID ::
    "64 word \<Rightarrow> error + (ChannelEdgeInfo \<times> ChannelEdgePolicy option \<times> ChannelEdgePolicy option)"
  FetchLightningNode :: "Vertex \<Rightarrow> error + Vertex"

text \<open>
  \<^verbatim>\<open>graphParams\<close> (lines 474-503), without the database transaction. Go iterates over the
  map \<^verbatim>\<open>additionalEdges\<close> in an unspecified order; the association list fixes one.
\<close>

record graphParams =
  graph :: ChannelGraph
  additionalEdges :: "(Vertex \<times> ChannelEdgePolicy list) list"
  bandwidthHints :: "64 word \<rightharpoonup> MilliSatoshi"
  originVertex :: "Vertex option"

text \<open>
  \<^verbatim>\<open>lnwire.NewMSatFromSatoshis\<close>: a capacity in satoshi as millisatoshi (the factor 1000).
\<close>

definition NewMSatFromSatoshis :: "64 word \<Rightarrow> MilliSatoshi" where
  "NewMSatFromSatoshis sat = sat * 1000"

section \<open>Single-path search\<close>

text \<open>
  The callback of \<^verbatim>\<open>bestNode.ForEachChannel\<close> (lines 784-824) over the channels of the
  pivot; an error of \<^verbatim>\<open>FetchOtherNode\<close> ends the iteration and the search.
\<close>

fun findPath_channels ::
  "(ChannelEdgePolicy \<Rightarrow> 'l) \<Rightarrow> graphParams \<Rightarrow> 'l restrictParams \<Rightarrow> Vertex \<Rightarrow>
   MilliSatoshi \<Rightarrow> Vertex \<Rightarrow> (ChannelEdgeInfo \<times> ChannelEdgePolicy option) list \<Rightarrow>
   findPath_vars \<Rightarrow> error + findPath_vars" where
  "findPath_channels newEdgeLocator g r origin amt pivot [] st = Inr st"
| "findPath_channels newEdgeLocator g r origin amt pivot ((edgeInfo, inEdge) # cs) st =
     (case inEdge of
        None \<Rightarrow> findPath_channels newEdgeLocator g r origin amt pivot cs st
      | Some e \<Rightarrow>
          (let edgeBandwidth =
                 (case bandwidthHints g (InfoChannelID edgeInfo) of
                    Some b \<Rightarrow> b
                  | None \<Rightarrow> NewMSatFromSatoshis (Capacity edgeInfo))
           in case FetchOtherNode (graph g) edgeInfo pivot of
                Inl err \<Rightarrow> Inl err
              | Inr channelSource \<Rightarrow>
                  findPath_channels newEdgeLocator g r origin amt pivot cs
                    (processEdge newEdgeLocator origin r amt channelSource e edgeBandwidth
                       pivot st)))"

text \<open>
  The additional edges into the pivot (lines 834-838), each with its source node, with the
  amount to receive as bandwidth.
\<close>

fun findPath_additional ::
  "(ChannelEdgePolicy \<Rightarrow> 'l) \<Rightarrow> 'l restrictParams \<Rightarrow> Vertex \<Rightarrow> MilliSatoshi \<Rightarrow> Vertex \<Rightarrow>
   MilliSatoshi \<Rightarrow> (Vertex \<times> ChannelEdgePolicy) list \<Rightarrow> findPath_vars \<Rightarrow> findPath_vars" where
  "findPath_additional newEdgeLocator r origin amt pivot bandWidth [] st = st"
| "findPath_additional newEdgeLocator r origin amt pivot bandWidth
     ((sourceNode, e) # es) st =
     findPath_additional newEdgeLocator r origin amt pivot bandWidth es
       (processEdge newEdgeLocator origin r amt sourceNode e bandWidth pivot st)"

text \<open>
  The reverse lookup \<^verbatim>\<open>additionalEdgesWithSrc\<close> (lines 579-602): the edges of the additional
  edges that lead to \<open>v\<close>, each with the vertex it leaves.
\<close>

definition additionalEdgesWithSrc ::
  "(Vertex \<times> ChannelEdgePolicy list) list \<Rightarrow> Vertex \<Rightarrow> (Vertex \<times> ChannelEdgePolicy) list" where
  "additionalEdgesWithSrc adds v =
     concat (map (\<lambda>(vertex, outgoingEdgePolicies).
                    map (\<lambda>e. (vertex, e)) (filter (\<lambda>e. Node e = v) outgoingEdgePolicies))
                 adds)"

text \<open>
  The main loop (lines 767-839). The result is \<open>None\<close> when the loop does not end. A popped
  entry without a node would be a nil dereference; the error \<open>ErrGraph\<close> stands for it.
\<close>

partial_function (option) findPath_loop ::
  "(ChannelEdgePolicy \<Rightarrow> 'l) \<Rightarrow> graphParams \<Rightarrow> 'l restrictParams \<Rightarrow> Vertex \<Rightarrow> Vertex \<Rightarrow>
   MilliSatoshi \<Rightarrow> findPath_vars \<Rightarrow> (error + findPath_vars) option" where
  "findPath_loop newEdgeLocator g r sourceVertex origin amt st =
     (case heap_Pop distLess (nodeHeap st) of
        None \<Rightarrow> Some (Inr st)
      | Some (partialPath, h) \<Rightarrow>
          (case node partialPath of
             None \<Rightarrow> Some (Inl ErrGraph)
           | Some bestNode \<Rightarrow>
               if bestNode = sourceVertex then Some (Inr (st\<lparr>nodeHeap := h\<rparr>))
               else (case findPath_channels newEdgeLocator g r origin amt bestNode
                            (ForEachChannel (graph g) bestNode) (st\<lparr>nodeHeap := h\<rparr>) of
                       Inl err \<Rightarrow> Some (Inl err)
                     | Inr st' \<Rightarrow>
                         findPath_loop newEdgeLocator g r sourceVertex origin amt
                           (findPath_additional newEdgeLocator r origin amt bestNode
                              (amountToReceive partialPath)
                              (additionalEdgesWithSrc (additionalEdges g) bestNode) st'))))"

declare findPath_loop.simps [code]

text \<open>
  The walk along \<^verbatim>\<open>next\<close> from the source to the target (lines 850-861). It does not end
  when the map has a cycle (\<open>None\<close>); a vertex without an entry is a nil dereference.
\<close>

partial_function (option) findPath_unravel ::
  "(Vertex \<rightharpoonup> ChannelEdgePolicy) \<Rightarrow> Vertex \<Rightarrow> Vertex \<Rightarrow> ChannelEdgePolicy list \<Rightarrow>
   (error + ChannelEdgePolicy list) option" where
  "findPath_unravel nxt targetVertex currentNode pathEdges =
     (if currentNode \<noteq> targetVertex
      then (case nxt currentNode of
              None \<Rightarrow> Some (Inl ErrGraph)
            | Some nextNode \<Rightarrow>
                findPath_unravel nxt targetVertex (Node nextNode) (pathEdges @ [nextNode]))
      else Some (Inr pathEdges))"

declare findPath_unravel.simps [code]

text \<open>The distance map and the heap before the main loop (lines 565-627 and 765).\<close>

definition findPath_init :: "graphParams \<Rightarrow> Vertex \<Rightarrow> MilliSatoshi \<Rightarrow> findPath_vars" where
  "findPath_init g targetVertex amt =
     (let d0 = fold (\<lambda>v d. d(v \<mapsto> \<lparr>dist = infinity, node = Some v, amountToReceive = 0,
                                     fee = 0\<rparr>))
                 (ForEachNode (graph g)) Map.empty;
          d1 = fold (\<lambda>(vertex, es) d. d(vertex \<mapsto> \<lparr>dist = infinity, node = Some vertex,
                                                    amountToReceive = 0, fee = 0\<rparr>))
                 (additionalEdges g) d0;
          d2 = d1(targetVertex \<mapsto> \<lparr>dist = 0, node = Some targetVertex,
                                    amountToReceive = amt, fee = 0\<rparr>)
      in \<lparr>distance = d2, nextMap = Map.empty,
          nodeHeap = heap_Push distLess [] (lookupDist d2 targetVertex)\<rparr>)"

text \<open>
  \<^verbatim>\<open>findPath\<close> up to the reconstructed path (lines 546-861): the search, the test that the
  source has a next hop, and the walk.
\<close>

definition findPath_search ::
  "(ChannelEdgePolicy \<Rightarrow> 'l) \<Rightarrow> graphParams \<Rightarrow> 'l restrictParams \<Rightarrow> Vertex \<Rightarrow> Vertex \<Rightarrow>
   MilliSatoshi \<Rightarrow> (error + ChannelEdgePolicy list) option" where
  "findPath_search newEdgeLocator g r sourceVertex targetVertex amt =
     (let origin = (case originVertex g of None \<Rightarrow> sourceVertex | Some v \<Rightarrow> v)
      in case findPath_loop newEdgeLocator g r sourceVertex origin amt
                (findPath_init g targetVertex amt) of
           None \<Rightarrow> None
         | Some (Inl err) \<Rightarrow> Some (Inl err)
         | Some (Inr st) \<Rightarrow>
             (case nextMap st sourceVertex of
                None \<Rightarrow> Some (Inl ErrNoPathFound)
              | Some e \<Rightarrow> findPath_unravel (nextMap st) targetVertex sourceVertex []))"

text \<open>
  \<^verbatim>\<open>findPath\<close> as \<^verbatim>\<open>findKPaths\<close> calls it, with \<^verbatim>\<open>stopAtMaxHopsExceeded\<close> set (lines 867-873
  and 895): the path comes back together with \<^verbatim>\<open>ErrMaxHopsExceeded\<close> when it has more than
  \<^verbatim>\<open>HopLimit\<close> edges. The result is the pair that Go returns: the path (empty for nil) and
  the error (\<open>None\<close> for nil).
\<close>

definition findPath_stop ::
  "(ChannelEdgePolicy \<Rightarrow> 'l) \<Rightarrow> graphParams \<Rightarrow> 'l restrictParams \<Rightarrow> Vertex \<Rightarrow> Vertex \<Rightarrow>
   MilliSatoshi \<Rightarrow> (ChannelEdgePolicy list \<times> error option) option" where
  "findPath_stop newEdgeLocator g r sourceVertex targetVertex amt =
     (case findPath_search newEdgeLocator g r sourceVertex targetVertex amt of
        None \<Rightarrow> None
      | Some (Inl err) \<Rightarrow> Some ([], Some err)
      | Some (Inr pathEdges) \<Rightarrow>
          if length pathEdges > HopLimit then Some (pathEdges, Some ErrMaxHopsExceeded)
          else Some (pathEdges, None))"

section \<open>K shortest paths\<close>

text \<open>
  The elements of the candidate heap: \<^verbatim>\<open>path{hops, dist}\<close>, with \<^verbatim>\<open>dist\<close> the number of hops
  (lines 1185-1188 and 1339-1342). The fields are written \<open>pathHops\<close> and \<open>pathDist\<close>. The
  heap's \<^verbatim>\<open>Less\<close> compares \<^verbatim>\<open>dist\<close>.
\<close>

record path =
  pathHops :: "ChannelEdgePolicy list"
  pathDist :: nat

definition pathLess :: "path \<Rightarrow> path \<Rightarrow> bool" where
  "pathLess a b = (pathDist a < pathDist b)"

text \<open>\<^verbatim>\<open>isSamePath\<close> (lines 164-176).\<close>

definition isSamePath :: "ChannelEdgePolicy list \<Rightarrow> ChannelEdgePolicy list \<Rightarrow> bool" where
  "isSamePath path1 path2 =
     (if length path1 \<noteq> length path2 then False
      else list_all2 (\<lambda>a b. ChannelID a = ChannelID b) path1 path2)"

text \<open>
  The self edge that \<^verbatim>\<open>findKPaths\<close> puts in front of the starting path (lines 1241-1243):
  \<^verbatim>\<open>&channeldb.ChannelEdgePolicy{Node: source}\<close>, every other field zero.
\<close>

definition selfEdge :: "Vertex \<Rightarrow> ChannelEdgePolicy" where
  "selfEdge source =
     \<lparr>ChannelID = 0, Node = source, TimeLockDelta = 0, MinHTLC = 0, FeeBaseMSat = 0,
      FeeProportionalMillionths = 0, ChannelFlags = 0\<rparr>"

text \<open>The ignored edges and vertices of the spur search at index \<open>i\<close> (lines 1264-1304).\<close>

definition spurIgnoredEdges ::
  "(ChannelEdgePolicy \<Rightarrow> 'l) \<Rightarrow> 'l restrictParams \<Rightarrow> ChannelEdgePolicy list list \<Rightarrow>
   ChannelEdgePolicy list \<Rightarrow> nat \<Rightarrow> 'l set" where
  "spurIgnoredEdges newEdgeLocator r shortestPaths rootPath i =
     fold (\<lambda>p ig. if length p > i + 1 \<and> isSamePath rootPath (take (i + 1) p)
                    then insert (newEdgeLocator (p ! (i + 1))) ig else ig)
          shortestPaths (ignoredEdges r)"

definition spurIgnoredVertexes :: "ChannelEdgePolicy list \<Rightarrow> Vertex \<Rightarrow> Vertex set" where
  "spurIgnoredVertexes rootPath spurNode =
     fold (\<lambda>hop ig. if Node hop = spurNode then ig else insert (Node hop) ig) rootPath {}"

text \<open>
  The loop over the spur indexes \<open>i\<close> of the previous shortest path (lines 1259-1351), on
  the candidate heap. \<^verbatim>\<open>continue\<close> goes on with the next index, \<^verbatim>\<open>break\<close> leaves the loop
  with the heap as it is, and an error other than \<^verbatim>\<open>ErrNoPathFound\<close> and
  \<^verbatim>\<open>ErrMaxHopsExceeded\<close> is returned. \<open>None\<close>: a search that does not end.
\<close>

fun findKPaths_spurs ::
  "(ChannelEdgePolicy \<Rightarrow> 'l) \<Rightarrow> graphParams \<Rightarrow> 'l restrictParams \<Rightarrow> Vertex \<Rightarrow>
   MilliSatoshi \<Rightarrow> ChannelEdgePolicy list list \<Rightarrow> ChannelEdgePolicy list \<Rightarrow> 32 word \<Rightarrow>
   nat list \<Rightarrow> path list \<Rightarrow> (error + path list) option" where
  "findKPaths_spurs newEdgeLocator g r target amt shortestPaths prevShortest validPathsNum
     [] candidatePaths = Some (Inr candidatePaths)"
| "findKPaths_spurs newEdgeLocator g r target amt shortestPaths prevShortest validPathsNum
     (i # rest) candidatePaths =
     (let spurNode = Node (prevShortest ! i);
          rootPath = take (i + 1) prevShortest
      in case findPath_stop newEdgeLocator g
                \<lparr>ignoredNodes = spurIgnoredVertexes rootPath spurNode,
                 ignoredEdges = spurIgnoredEdges newEdgeLocator r shortestPaths rootPath i,
                 feeLimit = feeLimit r,
                 outgoingChannelID = None,
                 stopAtMaxHopsExceeded = True\<rparr>
                spurNode target amt of
           None \<Rightarrow> None
         | Some (spurPath, err) \<Rightarrow>
             if err = Some ErrNoPathFound
             then findKPaths_spurs newEdgeLocator g r target amt shortestPaths prevShortest
                    validPathsNum rest candidatePaths
             else if err \<noteq> None \<and> err \<noteq> Some ErrMaxHopsExceeded then Some (Inl (the err))
             else if length rootPath + length spurPath > HopLimit + 1 \<and> validPathsNum > 0
             then Some (Inr candidatePaths)
             else findKPaths_spurs newEdgeLocator g r target amt shortestPaths prevShortest
                    validPathsNum rest
                    (heap_Push pathLess candidatePaths
                       \<lparr>pathHops = rootPath @ spurPath,
                        pathDist = length rootPath + length spurPath\<rparr>))"

text \<open>
  The loop \<^verbatim>\<open>for k := uint32(1); validPathsNum < numPaths; k++\<close> (lines 1253-1367), on
  \<open>k\<close>, \<^verbatim>\<open>shortestPaths\<close>, \<^verbatim>\<open>candidatePaths\<close> and \<^verbatim>\<open>validPathsNum\<close>; it gives the final
  \<^verbatim>\<open>shortestPaths\<close>. \<open>None\<close>: the loop or a search in it does not end.
\<close>

partial_function (option) findKPaths_loop ::
  "(ChannelEdgePolicy \<Rightarrow> 'l) \<Rightarrow> graphParams \<Rightarrow> 'l restrictParams \<Rightarrow> Vertex \<Rightarrow>
   MilliSatoshi \<Rightarrow> 32 word \<Rightarrow> 32 word \<Rightarrow> ChannelEdgePolicy list list \<Rightarrow> path list \<Rightarrow>
   32 word \<Rightarrow> (error + ChannelEdgePolicy list list) option" where
  "findKPaths_loop newEdgeLocator g r target amt numPaths k shortestPaths candidatePaths
     validPathsNum =
     (if validPathsNum < numPaths
      then (case findKPaths_spurs newEdgeLocator g r target amt shortestPaths
                   (shortestPaths ! unat (k - 1)) validPathsNum
                   [0..<length (shortestPaths ! unat (k - 1)) - 1] candidatePaths of
              None \<Rightarrow> None
            | Some (Inl err) \<Rightarrow> Some (Inl err)
            | Some (Inr cand) \<Rightarrow>
                (case heap_Pop pathLess cand of
                   None \<Rightarrow> Some (Inr shortestPaths)
                 | Some (p, cand') \<Rightarrow>
                     findKPaths_loop newEdgeLocator g r target amt numPaths (k + 1)
                       (shortestPaths @ [pathHops p]) cand'
                       (if length (pathHops p) \<le> HopLimit + 1 then validPathsNum + 1
                        else validPathsNum)))
      else Some (Inr shortestPaths))"

declare findKPaths_loop.simps [code]

text \<open>
  \<^verbatim>\<open>findKPaths\<close> (lines 1219-1388): the first path with its self edge, the loop, the filter
  of the paths longer than \<^verbatim>\<open>HopLimit + 1\<close>, and the removal of the self edge when the source
  is not the origin vertex.
\<close>

definition findKPaths ::
  "(ChannelEdgePolicy \<Rightarrow> 'l) \<Rightarrow> graphParams \<Rightarrow> 'l restrictParams \<Rightarrow> Vertex \<Rightarrow> Vertex \<Rightarrow>
   MilliSatoshi \<Rightarrow> ChannelEdgePolicy list \<Rightarrow> 32 word \<Rightarrow>
   (error + ChannelEdgePolicy list list) option" where
  "findKPaths newEdgeLocator g r source target amt startingPath numPaths =
     (let sourceVertex = source;
          firstPath = selfEdge source # startingPath;
          validPathsNum = (if length firstPath \<le> HopLimit + 1 then 1 else 0)
      in case findKPaths_loop newEdgeLocator g r target amt numPaths 1 [firstPath] []
                validPathsNum of
           None \<Rightarrow> None
         | Some (Inl err) \<Rightarrow> Some (Inl err)
         | Some (Inr shortestPaths) \<Rightarrow>
             (let fShortestPaths = filter (\<lambda>p. length p \<le> HopLimit + 1) shortestPaths
              in if originVertex g \<noteq> None \<and> sourceVertex \<noteq> the (originVertex g)
                 then Some (Inr (map (drop 1) fShortestPaths))
                 else Some (Inr fShortestPaths)))"

text \<open>
  \<^verbatim>\<open>findPath\<close> (lines 542-896): a path of more than \<^verbatim>\<open>HopLimit\<close> edges is returned with the
  error when \<^verbatim>\<open>stopAtMaxHopsExceeded\<close> is set, and otherwise replaced by the first path of
  \<^verbatim>\<open>findKPaths\<close> with \<^verbatim>\<open>numPaths = 1\<close>, without its first edge.
\<close>

definition findPath ::
  "(ChannelEdgePolicy \<Rightarrow> 'l) \<Rightarrow> graphParams \<Rightarrow> 'l restrictParams \<Rightarrow> Vertex \<Rightarrow> Vertex \<Rightarrow>
   MilliSatoshi \<Rightarrow> (ChannelEdgePolicy list \<times> error option) option" where
  "findPath newEdgeLocator g r sourceNode target amt =
     (case findPath_search newEdgeLocator g r sourceNode target amt of
        None \<Rightarrow> None
      | Some (Inl err) \<Rightarrow> Some ([], Some err)
      | Some (Inr pathEdges) \<Rightarrow>
          if length pathEdges > HopLimit
          then (if stopAtMaxHopsExceeded r then Some (pathEdges, Some ErrMaxHopsExceeded)
                else (case findKPaths newEdgeLocator g r sourceNode target amt pathEdges 1 of
                        None \<Rightarrow> None
                      | Some (Inl err) \<Rightarrow> Some ([], Some ErrMaxHopsExceeded)
                      | Some (Inr pathKEdges) \<Rightarrow>
                          if length pathKEdges = 0 then Some ([], Some ErrMaxHopsExceeded)
                          else Some (drop 1 (pathKEdges ! 0), None)))
          else Some (pathEdges, None))"

section \<open>Pegged hops and the stitching of segments\<close>

text \<open>
  \<^verbatim>\<open>HopPeg\<close> (lines 72-79); the field \<^verbatim>\<open>ChannelID\<close> is written \<open>PegChannelID\<close>. A public key is
  identified with its vertex, so \<^verbatim>\<open>NewVertex\<close> and \<^verbatim>\<open>btcec.ParsePubKey\<close> are the identity.
\<close>

record HopPeg =
  NodeID :: Vertex
  PegChannelID :: "64 word"

text \<open>
  Modelled from the spec: \<^verbatim>\<open>ChannelEdgeInfo.OtherNodeKeyBytes\<close> of channeldb (the external
  interface \<open>channel_info.other_endpoint(vertex) \<rightarrow> vertex\<close>: the endpoint opposite a given
  vertex).
\<close>

definition OtherNodeKeyBytes :: "ChannelEdgeInfo \<Rightarrow> Vertex \<Rightarrow> error + Vertex" where
  "OtherNodeKeyBytes info v =
     (if NodeKey1Bytes info = v then Inr (NodeKey2Bytes info)
      else if NodeKey2Bytes info = v then Inr (NodeKey1Bytes info)
      else Inl ErrGraph)"

text \<open>\<^verbatim>\<open>prepareHopPegs\<close> (lines 899-958): the first loop, with the index \<open>i\<close> of the peg.\<close>

fun prepareHopPegs_expand ::
  "ChannelGraph \<Rightarrow> nat \<Rightarrow> HopPeg list \<Rightarrow> HopPeg list \<Rightarrow> error + HopPeg list" where
  "prepareHopPegs_expand gr i [] expanded = Inr expanded"
| "prepareHopPegs_expand gr i (peg # rest) expanded =
     (if PegChannelID peg \<noteq> 0
      then (if i = 0 then Inl ErrPegNotInNetwork
            else (case FetchChannelEdgesByID gr (PegChannelID peg) of
                    Inl err \<Rightarrow> Inl err
                  | Inr (edgeInfo, p1, p2) \<Rightarrow>
                      (case OtherNodeKeyBytes edgeInfo (NodeID peg) of
                         Inl err \<Rightarrow> Inl err
                       | Inr prevHopBytes \<Rightarrow>
                           prepareHopPegs_expand gr (i + 1) rest
                             (expanded @ [\<lparr>NodeID = prevHopBytes, PegChannelID = 0\<rparr>, peg]))))
      else prepareHopPegs_expand gr (i + 1) rest (expanded @ [peg]))"

definition prepareHopPegs :: "ChannelGraph \<Rightarrow> HopPeg list \<Rightarrow> error + HopPeg list" where
  "prepareHopPegs gr pegsIn =
     (case prepareHopPegs_expand gr 0 pegsIn [] of
        Inl err \<Rightarrow> Inl err
      | Inr expanded \<Rightarrow>
          if length expanded < 2 then Inr expanded
          else Inr (map fst
                 (filter (\<lambda>(peg, i). \<not> (PegChannelID peg = 0 \<and> i > 0 \<and>
                                         NodeID peg = NodeID (expanded ! (i - 1))))
                    (zip expanded [0..<length expanded]))))"

text \<open>
  The variables of \<^verbatim>\<open>findPaths\<close> that the loop over the segments fills (lines 969-980 and
  1007); an entry of \<open>segParams\<close> is the triple \<^verbatim>\<open>(src, dest, pegged)\<close>.
\<close>

record 'l findPaths_vars =
  allIgnoredEdges :: "'l set"
  startingPath :: "ChannelEdgePolicy list"
  segPaths :: "ChannelEdgePolicy list list"
  segParams :: "(Vertex \<times> Vertex \<times> bool) list"

text \<open>
  The path of the segment \<open>j\<close> (lines 1011-1057): a search between the two pegs, or the one
  policy of the pegged channel. A missing policy is a nil pointer, dereferenced at line
  1062; \<open>ErrGraph\<close> stands for the panic.
\<close>

definition findPaths_segment ::
  "(ChannelEdgePolicy \<Rightarrow> 'l) \<Rightarrow> ChannelGraph \<Rightarrow> (64 word \<rightharpoonup> MilliSatoshi) \<Rightarrow> Vertex \<Rightarrow>
   MilliSatoshi \<Rightarrow> MilliSatoshi \<Rightarrow> HopPeg \<Rightarrow> Vertex \<Rightarrow> 'l set \<Rightarrow>
   (error + ChannelEdgePolicy list) option" where
  "findPaths_segment newEdgeLocator gr hints origin amt limit peg prevNode ignored =
     (if PegChannelID peg = 0
      then (case findPath newEdgeLocator
                   \<lparr>graph = gr, additionalEdges = [], bandwidthHints = hints,
                    originVertex = Some origin\<rparr>
                   \<lparr>ignoredNodes = {}, ignoredEdges = ignored, feeLimit = limit,
                    outgoingChannelID = None, stopAtMaxHopsExceeded = False\<rparr>
                   prevNode (NodeID peg) amt of
              None \<Rightarrow> None
            | Some (segPath, Some err) \<Rightarrow> Some (Inl err)
            | Some (segPath, None) \<Rightarrow> Some (Inr segPath))
      else (case FetchChannelEdgesByID gr (PegChannelID peg) of
              Inl err \<Rightarrow> Some (Inl err)
            | Inr (info, p1, p2) \<Rightarrow>
                (case (if NodeID peg = NodeKey2Bytes info then p1 else p2) of
                   None \<Rightarrow> Some (Inl ErrGraph)
                 | Some policy \<Rightarrow> Some (Inr [policy]))))"

text \<open>The loop \<^verbatim>\<open>for j := 1; j < len(pegs); j++\<close> (lines 1009-1080), over the indexes \<open>j\<close>.\<close>

fun findPaths_segments ::
  "(ChannelEdgePolicy \<Rightarrow> 'l) \<Rightarrow> ChannelGraph \<Rightarrow> (64 word \<rightharpoonup> MilliSatoshi) \<Rightarrow> Vertex \<Rightarrow>
   MilliSatoshi \<Rightarrow> MilliSatoshi \<Rightarrow> HopPeg list \<Rightarrow> nat list \<Rightarrow> 'l findPaths_vars \<Rightarrow>
   (error + 'l findPaths_vars) option" where
  "findPaths_segments newEdgeLocator gr hints origin amt limit pegs [] st = Some (Inr st)"
| "findPaths_segments newEdgeLocator gr hints origin amt limit pegs (j # js) st =
     (case FetchLightningNode gr (NodeID (pegs ! (j - 1))) of
        Inl err \<Rightarrow> Some (Inl err)
      | Inr prevNode \<Rightarrow>
          (case findPaths_segment newEdgeLocator gr hints origin amt limit (pegs ! j)
                  prevNode (allIgnoredEdges st) of
             None \<Rightarrow> None
           | Some (Inl err) \<Rightarrow> Some (Inl err)
           | Some (Inr segPath) \<Rightarrow>
               findPaths_segments newEdgeLocator gr hints origin amt limit pegs js
                 \<lparr>allIgnoredEdges =
                    fold (\<lambda>edge ig. insert (newEdgeLocator edge) ig) segPath
                      (allIgnoredEdges st),
                  startingPath = startingPath st @ segPath,
                  segPaths = segPaths st @ [segPath],
                  segParams = segParams st @
                    [(prevNode, NodeID (pegs ! j), PegChannelID (pegs ! j) \<noteq> 0)]\<rparr>))"

text \<open>The closure \<^verbatim>\<open>stitchPath\<close> (lines 1092-1103).\<close>

definition stitchPath ::
  "ChannelEdgePolicy list list \<Rightarrow> nat \<Rightarrow> ChannelEdgePolicy list \<Rightarrow> ChannelEdgePolicy list" where
  "stitchPath segs i p =
     concat (map (\<lambda>j. if i = j then p else segs ! j) [0..<length segs])"

text \<open>
  The loop over the paths \<^verbatim>\<open>segKPath\<close> found for segment \<open>i\<close>, each with its index \<open>j\<close> (lines
  1158-1190), on \<^verbatim>\<open>segPaths\<close> and the candidate heap.
\<close>

fun findPaths_stitch ::
  "nat \<Rightarrow> (nat \<times> ChannelEdgePolicy list) list \<Rightarrow> ChannelEdgePolicy list list \<times> path list \<Rightarrow>
   ChannelEdgePolicy list list \<times> path list" where
  "findPaths_stitch i [] (segs, candidatePaths) = (segs, candidatePaths)"
| "findPaths_stitch i ((j, segKPath) # rest) (segs, candidatePaths) =
     (if i \<noteq> 0 \<and> j = 0 then findPaths_stitch i rest (segs, candidatePaths)
      else (let segs' = (if i = 0 \<and> j = 0 then segs[0 := segKPath] else segs);
                stitchedPath = stitchPath segs' i segKPath;
                stitchedPathLen = length stitchedPath
            in if stitchedPathLen > HopLimit
               then findPaths_stitch i rest (segs', candidatePaths)
               else findPaths_stitch i rest
                      (segs', heap_Push pathLess candidatePaths
                                \<lparr>pathHops = stitchedPath, pathDist = stitchedPathLen\<rparr>)))"

text \<open>
  The loop \<^verbatim>\<open>for i := 0; i < len(segPaths); i++\<close> (lines 1111-1191), over the indexes \<open>i\<close>.
\<close>

fun findPaths_alternatives ::
  "(ChannelEdgePolicy \<Rightarrow> 'l) \<Rightarrow> ChannelGraph \<Rightarrow> (64 word \<rightharpoonup> MilliSatoshi) \<Rightarrow> Vertex \<Rightarrow>
   MilliSatoshi \<Rightarrow> MilliSatoshi \<Rightarrow> 32 word \<Rightarrow> MilliSatoshi \<Rightarrow> 'l set \<Rightarrow>
   (Vertex \<times> Vertex \<times> bool) list \<Rightarrow> nat list \<Rightarrow>
   ChannelEdgePolicy list list \<times> path list \<Rightarrow>
   (error + ChannelEdgePolicy list list \<times> path list) option" where
  "findPaths_alternatives newEdgeLocator gr hints origin amt limit numPaths startingPathFee
     ignored params [] (segs, candidatePaths) = Some (Inr (segs, candidatePaths))"
| "findPaths_alternatives newEdgeLocator gr hints origin amt limit numPaths startingPathFee
     ignored params (i # rest) (segs, candidatePaths) =
     (case params ! i of
        (sSrc, sDest, pegged) \<Rightarrow>
          if pegged
          then findPaths_alternatives newEdgeLocator gr hints origin amt limit numPaths
                 startingPathFee ignored params rest (segs, candidatePaths)
          else (case findKPaths newEdgeLocator
                       \<lparr>graph = gr, additionalEdges = [], bandwidthHints = hints,
                        originVertex = Some origin\<rparr>
                       \<lparr>ignoredNodes = {},
                        ignoredEdges =
                          fold (\<lambda>e ig. ig - {newEdgeLocator e}) (segs ! i) ignored,
                        feeLimit =
                          (if limit \<noteq> noFeeLimit
                           then limit - startingPathFee + computePathFee amt (segs ! i)
                           else noFeeLimit),
                        outgoingChannelID = None, stopAtMaxHopsExceeded = False\<rparr>
                       sSrc sDest amt (segs ! i) numPaths of
                  None \<Rightarrow> None
                | Some (Inl err) \<Rightarrow> Some (Inl err)
                | Some (Inr segKPaths) \<Rightarrow>
                    findPaths_alternatives newEdgeLocator gr hints origin amt limit numPaths
                      startingPathFee ignored params rest
                      (findPaths_stitch i (zip [0..<length segKPaths] segKPaths)
                         (segs, candidatePaths))))"

text \<open>
  The selection loop \<^verbatim>\<open>for k := uint32(0); k < numPaths; k++\<close> (lines 1194-1203); the
  counter is the number of rounds left.
\<close>

primrec findPaths_select ::
  "nat \<Rightarrow> path list \<Rightarrow> ChannelEdgePolicy list list \<Rightarrow> ChannelEdgePolicy list list" where
  "findPaths_select 0 candidatePaths shortestPaths = shortestPaths"
| "findPaths_select (Suc n) candidatePaths shortestPaths =
     (case heap_Pop pathLess candidatePaths of
        None \<Rightarrow> shortestPaths
      | Some (p, candidatePaths') \<Rightarrow>
          findPaths_select n candidatePaths' (shortestPaths @ [pathHops p]))"

text \<open>
  \<^verbatim>\<open>findPaths\<close> (lines 963-1206). \<open>None\<close>: a search in it does not end.
\<close>

definition findPaths ::
  "(ChannelEdgePolicy \<Rightarrow> 'l) \<Rightarrow> ChannelGraph \<Rightarrow> Vertex \<Rightarrow> Vertex \<Rightarrow> MilliSatoshi \<Rightarrow>
   MilliSatoshi \<Rightarrow> 32 word \<Rightarrow> (64 word \<rightharpoonup> MilliSatoshi) \<Rightarrow> HopPeg list \<Rightarrow>
   (error + ChannelEdgePolicy list list) option" where
  "findPaths newEdgeLocator gr source target amt limit numPaths hints additionalPegs =
     (case prepareHopPegs gr
             ([\<lparr>NodeID = source, PegChannelID = 0\<rparr>] @ additionalPegs @
              [\<lparr>NodeID = target, PegChannelID = 0\<rparr>]) of
        Inl err \<Rightarrow> Some (Inl err)
      | Inr pegs \<Rightarrow>
          (case findPaths_segments newEdgeLocator gr hints source amt limit pegs
                  [1..<length pegs]
                  \<lparr>allIgnoredEdges = {}, startingPath = [], segPaths = [],
                   segParams = []\<rparr> of
             None \<Rightarrow> None
           | Some (Inl err) \<Rightarrow> Some (Inl err)
           | Some (Inr st) \<Rightarrow>
               if computePathFee amt (startingPath st) > limit then Some (Inl ErrNoRouteFound)
               else (case findPaths_alternatives newEdgeLocator gr hints source amt limit
                            numPaths (computePathFee amt (startingPath st))
                            (allIgnoredEdges st) (segParams st)
                            [0..<length (segPaths st)] (segPaths st, []) of
                       None \<Rightarrow> None
                     | Some (Inl err) \<Rightarrow> Some (Inl err)
                     | Some (Inr (segs, candidatePaths)) \<Rightarrow>
                         Some (Inr (findPaths_select (unat numPaths) candidatePaths [])))))"

section \<open>Concrete inputs\<close>

text \<open>
  The two-hop path \<open>S \<rightarrow> A \<rightarrow> T\<close> used in the examples below: channel 1 from \<open>S\<close> to \<open>A\<close>,
  channel 2 from \<open>A\<close> to \<open>T\<close> with base fee 1000, rate 1000 ppm and time lock delta 40; and
  the route that \<^verbatim>\<open>newRoute\<close> builds for 100000 msat at height 500000 with a final delta of 9.
\<close>

definition vertexOf :: "8 word \<Rightarrow> Vertex" where
  "vertexOf b = 2 # replicate 31 0 @ [b]"

definition edgeSA :: ChannelEdgePolicy where
  "edgeSA = \<lparr>ChannelID = 1, Node = vertexOf 65, TimeLockDelta = 40, MinHTLC = 1,
     FeeBaseMSat = 1000, FeeProportionalMillionths = 1, ChannelFlags = 0\<rparr>"

definition edgeAT :: ChannelEdgePolicy where
  "edgeAT = \<lparr>ChannelID = 2, Node = vertexOf 84, TimeLockDelta = 40, MinHTLC = 1,
     FeeBaseMSat = 1000, FeeProportionalMillionths = 1000, ChannelFlags = 0\<rparr>"

definition routeSAT :: Route where
  "routeSAT = \<lparr>TotalTimeLock = 500049, TotalFees = 1100, TotalAmount = 101100,
     SourcePubKey = vertexOf 83,
     Hops = [\<lparr>PubKeyBytes = vertexOf 65, HopChannelID = 1, OutgoingTimeLock = 500009,
               AmtToForward = 100000\<rparr>,
             \<lparr>PubKeyBytes = vertexOf 84, HopChannelID = 2, OutgoingTimeLock = 500009,
               AmtToForward = 100000\<rparr>],
     nodeIndex = {vertexOf 84, vertexOf 65},
     chanIndex = {2, 1}\<rparr>"

definition hopDup :: Hop where
  "hopDup = \<lparr>PubKeyBytes = vertexOf 65, HopChannelID = 1, OutgoingTimeLock = 500009,
      AmtToForward = 100000\<rparr>"

text \<open>
  Inputs for the edge relaxation: a locator function (the channel and the direction bit of
  the flags), a direct channel from \<open>S\<close> to \<open>T\<close> with time lock delta 0, no restrictions, and
  the state of the search from \<open>S\<close> to \<open>T\<close> for 100000 msat once \<open>T\<close> is taken from the heap.
\<close>

definition locatorOf :: "ChannelEdgePolicy \<Rightarrow> 64 word \<times> 8 word" where
  "locatorOf e = (ChannelID e, ChannelFlags e AND 1)"

definition edgeST0 :: ChannelEdgePolicy where
  "edgeST0 = \<lparr>ChannelID = 7, Node = vertexOf 84, TimeLockDelta = 0, MinHTLC = 1,
     FeeBaseMSat = 1000, FeeProportionalMillionths = 1, ChannelFlags = 0\<rparr>"

definition noRestrictions :: "(64 word \<times> 8 word) restrictParams" where
  "noRestrictions = \<lparr>ignoredNodes = {}, ignoredEdges = {}, feeLimit = noFeeLimit,
     outgoingChannelID = None, stopAtMaxHopsExceeded = False\<rparr>"

definition varsST :: findPath_vars where
  "varsST = \<lparr>distance = [vertexOf 83 \<mapsto> \<lparr>dist = infinity, node = Some (vertexOf 83),
                                          amountToReceive = 0, fee = 0\<rparr>,
                           vertexOf 84 \<mapsto> \<lparr>dist = 0, node = Some (vertexOf 84),
                                          amountToReceive = 100000, fee = 0\<rparr>],
              nextMap = Map.empty,
              nodeHeap = []\<rparr>"

text \<open>
  Modelled from the spec: a graph store for the examples, from a list of vertices and a list
  of channels, each with its info and the policies of its first and second endpoint (external
  interfaces, graph provider: \<open>for_each_node\<close> visits every node, \<open>for_each_channel\<close> visits
  each adjacent channel and yields the incoming policy, \<open>other_endpoint\<close> is the opposite
  vertex). The incoming policy at an endpoint is the policy of the other endpoint.
\<close>

definition graphOf ::
  "Vertex list \<Rightarrow> (ChannelEdgeInfo \<times> ChannelEdgePolicy option \<times> ChannelEdgePolicy option) list \<Rightarrow>
   ChannelGraph" where
  "graphOf vs chans =
     \<lparr>ForEachNode = vs,
      ForEachChannel = (\<lambda>v. concat (map (\<lambda>(info, p1, p2).
          if NodeKey1Bytes info = v then [(info, p2)]
          else if NodeKey2Bytes info = v then [(info, p1)] else []) chans)),
      FetchOtherNode = OtherNodeKeyBytes,
      FetchChannelEdgesByID = (\<lambda>c.
          case filter (\<lambda>(info, p1, p2). InfoChannelID info = c) chans of
            [] \<Rightarrow> Inl ErrGraph | x # xs \<Rightarrow> Inr x),
      FetchLightningNode = (\<lambda>v. if v \<in> set vs then Inr v else Inl ErrGraph)\<rparr>"

text \<open>
  A graph with the two routes \<open>S \<rightarrow> A \<rightarrow> T\<close> (channels 1 and 2, fee 1000 at \<open>A\<close>) and
  \<open>S \<rightarrow> B \<rightarrow> C \<rightarrow> T\<close> (channels 3, 4 and 5, fee 1 at \<open>B\<close> and at \<open>C\<close>), every channel with a
  capacity of 1000000 satoshi and a policy in the forward direction only.
\<close>

definition edgeTo :: "64 word \<Rightarrow> 8 word \<Rightarrow> MilliSatoshi \<Rightarrow> ChannelEdgePolicy" where
  "edgeTo c b base =
     \<lparr>ChannelID = c, Node = vertexOf b, TimeLockDelta = 40, MinHTLC = 1,
      FeeBaseMSat = base, FeeProportionalMillionths = 0, ChannelFlags = 0\<rparr>"

definition chan :: "64 word \<Rightarrow> 8 word \<Rightarrow> 8 word \<Rightarrow> MilliSatoshi \<Rightarrow>
   (ChannelEdgeInfo \<times> ChannelEdgePolicy option \<times> ChannelEdgePolicy option)" where
  "chan c a b base =
     (\<lparr>InfoChannelID = c, NodeKey1Bytes = vertexOf a, NodeKey2Bytes = vertexOf b,
       Capacity = 1000000\<rparr>,
      Some (edgeTo c b base), None)"

definition graph5 :: ChannelGraph where
  "graph5 = graphOf [vertexOf 83, vertexOf 65, vertexOf 66, vertexOf 67, vertexOf 84]
     [chan 1 83 65 0, chan 2 65 84 1000, chan 3 83 66 0, chan 4 66 67 1, chan 5 67 84 1]"

definition params5 :: graphParams where
  "params5 = \<lparr>graph = graph5, additionalEdges = [], bandwidthHints = Map.empty,
     originVertex = Some (vertexOf 83)\<rparr>"








section \<open>Invariants used in the proofs\<close>

text \<open>
  The state of the loop of \<^verbatim>\<open>newRoute\<close> once the indexes from \<open>k\<close> upwards are done: the
  accumulated time lock exceeds the first hop's outgoing time lock by the delta of edge
  \<open>k + 1\<close> (nothing for the last edge), and neighbouring hops differ by the delta of the
  edge two positions on.
\<close>

definition timelock_inv ::
  "ChannelEdgePolicy list \<Rightarrow> 32 word \<Rightarrow> 16 word \<Rightarrow> nat \<Rightarrow> newRoute_vars \<Rightarrow> bool" where
  "timelock_inv es h f k st =
     (k < length es \<and> length (hops st) = length es - k \<and>
      totalTimeLock st =
        OutgoingTimeLock (hd (hops st)) +
          (if k = length es - 1 then 0 else ucast (TimeLockDelta (es ! (k + 1)))) \<and>
      (\<forall>j. j + 1 < length es - k \<longrightarrow>
         OutgoingTimeLock (hops st ! j) - OutgoingTimeLock (hops st ! (j + 1)) =
           (if k + j + 2 < length es then ucast (TimeLockDelta (es ! (k + j + 2))) else 0)))"





text \<open>
  The rounds of the main loop of \<^verbatim>\<open>findKPaths\<close> (lines 1249 to 1365), from a state of the
  loop: \<open>findKPaths_rounds \<dots> rounds\<close> holds when the loop runs exactly \<open>length rounds\<close>
  rounds to their end and then leaves, and the \<open>i\<close>-th round's spur searches leave the
  candidate heap \<open>c\<close> and its \<^verbatim>\<open>heap.Pop\<close> takes the path \<open>p\<close> from it, for
  \<open>(p, c) = rounds ! i\<close>. Every step is the loop's own: the same call of
  \<open>findKPaths_spurs\<close>, the same \<open>heap_Pop\<close>, the same update of \<^verbatim>\<open>shortestPaths\<close> and
  \<^verbatim>\<open>validPathsNum\<close>. The loop leaves when \<^verbatim>\<open>validPathsNum\<close> has reached \<^verbatim>\<open>numPaths\<close> or when
  the heap is empty after the spur searches.
\<close>

fun findKPaths_rounds ::
  "(ChannelEdgePolicy \<Rightarrow> 'l) \<Rightarrow> graphParams \<Rightarrow> 'l restrictParams \<Rightarrow> Vertex \<Rightarrow>
   MilliSatoshi \<Rightarrow> 32 word \<Rightarrow> 32 word \<Rightarrow> ChannelEdgePolicy list list \<Rightarrow> path list \<Rightarrow>
   32 word \<Rightarrow> (path \<times> path list) list \<Rightarrow> bool" where
  "findKPaths_rounds newEdgeLocator g r target amt numPaths k shortestPaths candidatePaths
     validPathsNum [] =
     (\<not> validPathsNum < numPaths \<or>
      (case findKPaths_spurs newEdgeLocator g r target amt shortestPaths
              (shortestPaths ! unat (k - 1)) validPathsNum
              [0..<length (shortestPaths ! unat (k - 1)) - 1] candidatePaths of
         Some (Inr cand) \<Rightarrow> heap_Pop pathLess cand = None
       | Some (Inl err) \<Rightarrow> False
       | None \<Rightarrow> False))"
| "findKPaths_rounds newEdgeLocator g r target amt numPaths k shortestPaths candidatePaths
     validPathsNum ((p, cand) # rounds) =
     (validPathsNum < numPaths \<and>
      findKPaths_spurs newEdgeLocator g r target amt shortestPaths
        (shortestPaths ! unat (k - 1)) validPathsNum
        [0..<length (shortestPaths ! unat (k - 1)) - 1] candidatePaths = Some (Inr cand) \<and>
      (case heap_Pop pathLess cand of
         None \<Rightarrow> False
       | Some (p', cand') \<Rightarrow>
           p' = p \<and>
           findKPaths_rounds newEdgeLocator g r target amt numPaths (k + 1)
             (shortestPaths @ [pathHops p]) cand'
             (if length (pathHops p) \<le> HopLimit + 1 then validPathsNum + 1
              else validPathsNum) rounds))"

section \<open>Route construction: proofs\<close>

lemma newRoute_body_simps:
  "hops (newRoute_body a es h f i st) \<noteq> []"
  "length (hops (newRoute_body a es h f i st)) = Suc (length (hops st))"
  "tl (hops (newRoute_body a es h f i st)) = hops st"
  "nextIncomingAmount (newRoute_body a es h f i st) = computePathFee_body a es i (nextIncomingAmount st)"
  by (simp_all add: newRoute_body_def computePathFee_body_def Let_def split: prod.splits)

lemma newRoute_loop_length:
  "length (hops (newRoute_loop a es h f k st)) = k + length (hops st)"
  by (induction k arbitrary: st) (simp_all add: newRoute_body_simps)

lemma newRoute_loop_last:
  "hops st \<noteq> [] \<Longrightarrow> last (hops (newRoute_loop a es h f k st)) = last (hops st)"
proof (induction k arbitrary: st)
  case 0
  then show ?case by simp
next
  case (Suc k)
  have "last (hops (newRoute_body a es h f k st)) = last (hops st)"
    using Suc.prems by (simp add: newRoute_body_def Let_def split: prod.splits)
  then show ?case
    using Suc.IH [of "newRoute_body a es h f k st"] by (simp add: newRoute_body_simps)
qed

lemma newRoute_loop_amount:
  "nextIncomingAmount (newRoute_loop a es h f k st) =
     computePathFee_loop a es k (nextIncomingAmount st)"
  by (induction k arbitrary: st) (simp_all add: newRoute_body_simps)

lemma newRoute_loop_last_hop:
  assumes "es \<noteq> []"
  shows "last (hops (newRoute_loop a es h f (length es) \<lparr>hops = [], totalTimeLock = h, nextIncomingAmount = 0\<rparr>))
         = \<lparr>PubKeyBytes = Node (last es), HopChannelID = ChannelID (last es),
             OutgoingTimeLock = h + ucast f, AmtToForward = a\<rparr>"
proof -
  obtain n where n: "length es = Suc n"
    using assms by (cases es) auto
  let ?st0 = "\<lparr>hops = [], totalTimeLock = h, nextIncomingAmount = 0\<rparr>"
  have b: "hops (newRoute_body a es h f n ?st0) =
     [\<lparr>PubKeyBytes = Node (last es), HopChannelID = ChannelID (last es),
             OutgoingTimeLock = h + ucast f, AmtToForward = a\<rparr>]"
    using n assms by (simp add: newRoute_body_def Let_def last_conv_nth)
  show ?thesis
    using newRoute_loop_last [of "newRoute_body a es h f n ?st0" a es h f n] b
    by (simp add: n)
qed

lemma timelock_inv_first:
  assumes "length es = Suc n"
  shows "timelock_inv es h f n
           (newRoute_body a es h f n \<lparr>hops = [], totalTimeLock = h, nextIncomingAmount = 0\<rparr>)"
  using assms by (simp add: timelock_inv_def newRoute_body_def Let_def)

lemma timelock_inv_step:
  assumes "timelock_inv es h f (Suc i) st"
  shows "timelock_inv es h f i (newRoute_body a es h f i st)"
proof -
  have lt: "Suc i < length es" and len: "length (hops st) = length es - Suc i"
    and tot: "totalTimeLock st =
        OutgoingTimeLock (hd (hops st)) +
          (if Suc i = length es - 1 then 0 else ucast (TimeLockDelta (es ! (Suc i + 1))))"
    and diffs: "\<And>j. j + 1 < length es - Suc i \<Longrightarrow>
         OutgoingTimeLock (hops st ! j) - OutgoingTimeLock (hops st ! (j + 1)) =
           (if Suc i + j + 2 < length es then ucast (TimeLockDelta (es ! (Suc i + j + 2))) else 0)"
    using assms by (auto simp: timelock_inv_def)
  have ne: "hops st \<noteq> []" using lt len by auto
  have i: "i \<noteq> length es - 1" using lt by arith
  let ?st' = "newRoute_body a es h f i st"
  have hops': "hops ?st' = \<lparr>PubKeyBytes = Node (es ! i), HopChannelID = ChannelID (es ! i),
        OutgoingTimeLock = totalTimeLock st,
        AmtToForward = nextIncomingAmount st\<rparr> # hops st"
    and tot': "totalTimeLock ?st' = totalTimeLock st + ucast (TimeLockDelta (es ! (i + 1)))"
    using lt i by (simp_all add: newRoute_body_def Let_def)
  have d: "OutgoingTimeLock (hops ?st' ! j) - OutgoingTimeLock (hops ?st' ! (j + 1)) =
           (if i + j + 2 < length es then ucast (TimeLockDelta (es ! (i + j + 2))) else 0)"
    if "j + 1 < length es - i" for j
  proof (cases j)
    case 0
    have "OutgoingTimeLock (hops ?st' ! 0) - OutgoingTimeLock (hops ?st' ! 1)
          = totalTimeLock st - OutgoingTimeLock (hd (hops st))"
      using ne by (simp add: hops' hd_conv_nth)
    also have "\<dots> = (if i + 2 < length es then ucast (TimeLockDelta (es ! (i + 2))) else 0)"
      using lt by (auto simp: tot)
    finally show ?thesis using 0 by simp
  next
    case (Suc j')
    then show ?thesis using diffs [of j'] that by (simp add: hops')
  qed
  show ?thesis
    unfolding timelock_inv_def
    using lt len d by (auto simp: hops' tot')
qed

lemma timelock_inv_loop:
  "timelock_inv es h f k st \<Longrightarrow> timelock_inv es h f 0 (newRoute_loop a es h f k st)"
  by (induction k arbitrary: st) (simp_all add: timelock_inv_step)

lemma newRoute_loop_timelock_inv:
  assumes "es \<noteq> []"
  shows "timelock_inv es h f 0
     (newRoute_loop a es h f (length es) \<lparr>hops = [], totalTimeLock = h, nextIncomingAmount = 0\<rparr>)"
proof -
  obtain n where n: "length es = Suc n"
    using assms by (cases es) auto
  show ?thesis
    using timelock_inv_loop [OF timelock_inv_first [OF n]] by (simp add: n)
qed

lemma newRoute_Inr_iff:
  "newRoute a fl s es h f = Inr r \<longleftrightarrow>
     (let st = newRoute_loop a es h f (length es) \<lparr>hops = [], totalTimeLock = h, nextIncomingAmount = 0\<rparr>
      in NewRouteFromHops (nextIncomingAmount st) (totalTimeLock st) s (hops st) = Inr r \<and>
         \<not> fl < TotalFees r)"
  by (auto simp: newRoute_def Let_def split: sum.splits)

lemma NewRouteFromHops_Inr:
  "NewRouteFromHops a t s hs = Inr r \<Longrightarrow>
     hs \<noteq> [] \<and> Hops r = hs \<and> TotalAmount r = a \<and> TotalTimeLock r = t \<and>
     TotalFees r = a - AmtToForward (last hs) \<and> SourcePubKey r = s"
  by (auto simp: NewRouteFromHops_def last_conv_nth split: if_splits)

text \<open>
  Claim C1, amended. For a successful \<^verbatim>\<open>newRoute\<close> on a non-empty edge list there is one hop
  per edge, the last hop's outgoing time lock is \<open>currentHeight + finalCLTVDelta\<close> (32-bit),
  the hop before the last has the same outgoing time lock, and for every \<open>i\<close> with
  \<open>i + 2 < length pathEdges\<close> the difference
  \<open>hops[i].OutgoingTimeLock - hops[i+1].OutgoingTimeLock\<close> is the delta of edge \<open>i + 2\<close>: a hop's
  outgoing time lock leaves out the delta of the edge that follows it.
\<close>

theorem newRoute_timelocks:
  assumes "newRoute amtToSend limit sourceVertex pathEdges currentHeight finalCLTVDelta = Inr r"
    and "pathEdges \<noteq> []"
  shows "length (Hops r) = length pathEdges \<and>
         OutgoingTimeLock (last (Hops r)) = currentHeight + ucast finalCLTVDelta \<and>
         (\<forall>i. i + 1 < length pathEdges \<longrightarrow>
            OutgoingTimeLock (Hops r ! i) - OutgoingTimeLock (Hops r ! (i + 1)) =
              (if i + 2 < length pathEdges
               then ucast (TimeLockDelta (pathEdges ! (i + 2))) else 0))"
proof -
  let ?st = "newRoute_loop amtToSend pathEdges currentHeight finalCLTVDelta (length pathEdges)
               \<lparr>hops = [], totalTimeLock = currentHeight, nextIncomingAmount = 0\<rparr>"
  have "NewRouteFromHops (nextIncomingAmount ?st) (totalTimeLock ?st) sourceVertex (hops ?st) = Inr r"
    using assms(1) by (simp add: newRoute_Inr_iff Let_def)
  then have H: "Hops r = hops ?st"
    by (simp add: NewRouteFromHops_Inr)
  have inv: "timelock_inv pathEdges currentHeight finalCLTVDelta 0 ?st"
    by (rule newRoute_loop_timelock_inv [OF assms(2)])
  have l: "OutgoingTimeLock (last (hops ?st)) = currentHeight + ucast finalCLTVDelta"
    by (simp add: newRoute_loop_last_hop [OF assms(2)])
  show ?thesis
    using inv l unfolding H timelock_inv_def by simp
qed

lemma newRoute_SAT:
  "newRoute 100000 noFeeLimit (vertexOf 83) [edgeSA, edgeAT] 500000 9 = Inr routeSAT"
  by (simp add: newRoute_def NewRouteFromHops_def newRoute_body_def computeFee_def Let_def
      edgeSA_def edgeAT_def routeSAT_def noFeeLimit_def)

text \<open>
  Claim C1 as stated fails on the two-hop path: both hops carry the time lock 500009, so
  their difference is 0 and not the delta 40 of the second edge.
\<close>

theorem newRoute_timelock_delta_counterexample:
  "newRoute 100000 noFeeLimit (vertexOf 83) [edgeSA, edgeAT] 500000 9 = Inr routeSAT \<and>
   OutgoingTimeLock (Hops routeSAT ! 0) - OutgoingTimeLock (Hops routeSAT ! (0 + 1))
     \<noteq> ucast (TimeLockDelta ([edgeSA, edgeAT] ! (0 + 1)))"
  by (simp add: newRoute_SAT) (simp add: routeSAT_def edgeAT_def)

theorem newRoute_timelocks_witness:
  "OutgoingTimeLock (last (Hops routeSAT)) = 500000 + ucast (9 :: 16 word) \<and>
   OutgoingTimeLock (Hops routeSAT ! 0) - OutgoingTimeLock (Hops routeSAT ! 1) = 0"
  using newRoute_timelocks [OF newRoute_SAT] by simp

lemma newRoute_loop_hops_nonempty:
  "es \<noteq> [] \<Longrightarrow>
   hops (newRoute_loop a es h f (length es) \<lparr>hops = [], totalTimeLock = h, nextIncomingAmount = 0\<rparr>) \<noteq> []"
  using newRoute_loop_length [of a es h f "length es" "\<lparr>hops = [], totalTimeLock = h, nextIncomingAmount = 0\<rparr>"]
  by auto

lemma newRoute_result:
  fixes a :: MilliSatoshi and es :: "ChannelEdgePolicy list" and h :: "32 word" and f :: "16 word"
  assumes "es \<noteq> []"
  defines "st \<equiv> newRoute_loop a es h f (length es) \<lparr>hops = [], totalTimeLock = h, nextIncomingAmount = 0\<rparr>"
  shows "newRoute a fl s es h f =
     (if fl < nextIncomingAmount st - a then Inl ErrFeeLimitExceeded
      else Inr \<lparr>TotalTimeLock = totalTimeLock st,
                TotalFees = nextIncomingAmount st - a,
                TotalAmount = nextIncomingAmount st,
                SourcePubKey = s,
                Hops = hops st,
                nodeIndex = fold (\<lambda>hop ix. insert (PubKeyBytes hop) ix) (hops st) {},
                chanIndex = fold (\<lambda>hop ix. insert (HopChannelID hop) ix) (hops st) {}\<rparr>)"
proof -
  have ne: "hops st \<noteq> []"
    unfolding st_def by (rule newRoute_loop_hops_nonempty [OF assms(1)])
  have "AmtToForward (last (hops st)) = a"
    unfolding st_def by (simp add: newRoute_loop_last_hop [OF assms(1)])
  then have l: "AmtToForward (hops st ! (length (hops st) - 1)) = a"
    using ne by (simp add: last_conv_nth)
  show ?thesis
    using ne l by (simp add: newRoute_def NewRouteFromHops_def Let_def flip: st_def)
qed

text \<open>
  Claim C4. On a non-empty edge list \<^verbatim>\<open>newRoute\<close> fails exactly when the total fees (the
  amount that enters the first hop minus the payment amount, in 64-bit arithmetic) exceed
  the fee limit, and the only error is \<^verbatim>\<open>ErrFeeLimitExceeded\<close>; a returned route has
  \<open>TotalFees = TotalAmount - amtToSend\<close> and \<open>TotalFees \<le> limit\<close>.
\<close>

theorem newRoute_fee_limit:
  assumes "pathEdges \<noteq> []"
  shows "(newRoute amtToSend limit sourceVertex pathEdges currentHeight finalCLTVDelta
            = Inl ErrFeeLimitExceeded) =
         (limit < nextIncomingAmount
            (newRoute_loop amtToSend pathEdges currentHeight finalCLTVDelta (length pathEdges)
               \<lparr>hops = [], totalTimeLock = currentHeight, nextIncomingAmount = 0\<rparr>) - amtToSend) \<and>
         isl (newRoute amtToSend limit sourceVertex pathEdges currentHeight finalCLTVDelta) =
         (limit < nextIncomingAmount
            (newRoute_loop amtToSend pathEdges currentHeight finalCLTVDelta (length pathEdges)
               \<lparr>hops = [], totalTimeLock = currentHeight, nextIncomingAmount = 0\<rparr>) - amtToSend) \<and>
         (\<forall>r. newRoute amtToSend limit sourceVertex pathEdges currentHeight finalCLTVDelta = Inr r \<longrightarrow>
            TotalAmount r = nextIncomingAmount
              (newRoute_loop amtToSend pathEdges currentHeight finalCLTVDelta (length pathEdges)
                 \<lparr>hops = [], totalTimeLock = currentHeight, nextIncomingAmount = 0\<rparr>) \<and>
            TotalFees r = TotalAmount r - amtToSend \<and> TotalFees r \<le> limit)"
  unfolding newRoute_result [OF assms] by (auto simp: not_less)

theorem newRoute_fee_limit_witness:
  "newRoute 100000 500 (vertexOf 83) [edgeSA, edgeAT] 500000 9 = Inl ErrFeeLimitExceeded \<and>
   TotalFees routeSAT = TotalAmount routeSAT - 100000 \<and> TotalFees routeSAT \<le> noFeeLimit"
proof -
  have ne: "[edgeSA, edgeAT] \<noteq> []" by simp
  have "(500 :: 64 word) < nextIncomingAmount
            (newRoute_loop 100000 [edgeSA, edgeAT] 500000 9 (length [edgeSA, edgeAT])
               \<lparr>hops = [], totalTimeLock = 500000, nextIncomingAmount = 0\<rparr>) - 100000"
    by (simp add: newRoute_body_def computeFee_def Let_def edgeSA_def edgeAT_def)
  then have 1: "newRoute 100000 500 (vertexOf 83) [edgeSA, edgeAT] 500000 9 = Inl ErrFeeLimitExceeded"
    using newRoute_fee_limit [OF ne, of 100000 500 "vertexOf 83" 500000 9] by simp
  have 2: "TotalFees routeSAT = TotalAmount routeSAT - 100000 \<and> TotalFees routeSAT \<le> noFeeLimit"
    using newRoute_fee_limit [OF ne, of 100000 noFeeLimit "vertexOf 83" 500000 9,
        THEN conjunct2, THEN conjunct2, rule_format, OF newRoute_SAT]
    by blast
  show ?thesis using 1 2 by blast
qed

text \<open>
  Claim C9. Whenever \<^verbatim>\<open>newRoute\<close> succeeds on a non-empty edge list, \<^verbatim>\<open>computePathFee\<close> on
  the same amount and edges is the \<^verbatim>\<open>TotalFees\<close> of the returned route.
\<close>

theorem computePathFee_agrees_newRoute:
  assumes "newRoute amt limit sourceVertex pathEdges currentHeight finalCLTVDelta = Inr r"
    and "pathEdges \<noteq> []"
  shows "computePathFee amt pathEdges = TotalFees r"
proof -
  have "TotalFees r = nextIncomingAmount
          (newRoute_loop amt pathEdges currentHeight finalCLTVDelta (length pathEdges)
             \<lparr>hops = [], totalTimeLock = currentHeight, nextIncomingAmount = 0\<rparr>) - amt"
    using assms(1) unfolding newRoute_result [OF assms(2)] by (auto split: if_splits)
  then show ?thesis
    by (simp add: computePathFee_def newRoute_loop_amount)
qed

theorem computePathFee_agrees_newRoute_witness:
  "computePathFee 100000 [edgeSA, edgeAT] = 1100"
  using computePathFee_agrees_newRoute [OF newRoute_SAT] by (simp add: routeSAT_def)

text \<open>
  Claim C10. \<^verbatim>\<open>NewRouteFromHops\<close> fails exactly on the empty hop list, with
  \<^verbatim>\<open>ErrNoRouteHopsProvided\<close>; on every other list, whatever its length and whatever
  vertices or channels repeat in it, it returns a route holding these hops.
\<close>

theorem NewRouteFromHops_error_iff:
  "(NewRouteFromHops amtToSend timeLock sourceVertex hs = Inl ErrNoRouteHopsProvided) = (hs = []) \<and>
   isl (NewRouteFromHops amtToSend timeLock sourceVertex hs) = (hs = []) \<and>
   (hs \<noteq> [] \<longrightarrow>
      (\<exists>r. NewRouteFromHops amtToSend timeLock sourceVertex hs = Inr r \<and> Hops r = hs \<and>
           TotalAmount r = amtToSend \<and> TotalTimeLock r = timeLock \<and>
           SourcePubKey r = sourceVertex \<and>
           TotalFees r = amtToSend - AmtToForward (last hs) \<and>
           nodeIndex r = PubKeyBytes ` set hs \<and> chanIndex r = HopChannelID ` set hs))"
proof -
  have a: "fold (\<lambda>hop ix. insert (g hop) ix) xs S = g ` set xs \<union> S" for g :: "Hop \<Rightarrow> 'b" and xs S
    by (induction xs arbitrary: S) auto
  show ?thesis
    by (auto simp: NewRouteFromHops_def last_conv_nth a)
qed

theorem NewRouteFromHops_error_iff_witness:
  "\<exists>r. NewRouteFromHops 100000 500009 (vertexOf 83) (replicate 21 hopDup) = Inr r \<and>
       Hops r = replicate 21 hopDup \<and> length (Hops r) = 21 \<and> \<not> distinct (map PubKeyBytes (Hops r)) \<and>
       \<not> distinct (map HopChannelID (Hops r))"
proof -
  have ne: "replicate 21 hopDup \<noteq> []" by simp
  have d: "\<not> distinct (map PubKeyBytes (replicate 21 hopDup))"
    "\<not> distinct (map HopChannelID (replicate 21 hopDup))"
    by (simp_all add: numeral_eq_Suc)
  show ?thesis
    using NewRouteFromHops_error_iff [of 100000 500009 "vertexOf 83" "replicate 21 hopDup"] ne d
    by auto
qed

section \<open>Fee and weight arithmetic: proofs\<close>

text \<open>
  Claim C2. For every amount and edge policy, \<^verbatim>\<open>computeFee\<close> is the base fee plus the
  quotient of amount times rate by 1000000, in the integer arithmetic of the code: unsigned
  64-bit, so the product and the sum are taken modulo \<open>2 ^ 64\<close> and the division truncates.
  Whenever the product and the sum stay below \<open>2 ^ 64\<close> the result is the exact value
  \<open>fee_base + \<lfloor>amt * rate / 1000000\<rfloor>\<close>.
\<close>

theorem computeFee_formula:
  "unat (computeFee amt edge) =
     (unat (FeeBaseMSat edge) +
      (unat amt * unat (FeeProportionalMillionths edge) mod 2 ^ 64) div 1000000) mod 2 ^ 64 \<and>
   (unat amt * unat (FeeProportionalMillionths edge) < 2 ^ 64 \<and>
    unat (FeeBaseMSat edge) + unat amt * unat (FeeProportionalMillionths edge) div 1000000
      < 2 ^ 64 \<longrightarrow>
    unat (computeFee amt edge) =
      unat (FeeBaseMSat edge) + unat amt * unat (FeeProportionalMillionths edge) div 1000000)"
proof -
  have g: "unat (computeFee amt edge) =
     (unat (FeeBaseMSat edge) +
      (unat amt * unat (FeeProportionalMillionths edge) mod 2 ^ 64) div 1000000) mod 2 ^ 64"
    by (simp add: computeFee_def unat_word_ariths unat_div)
  show ?thesis
    unfolding g by simp
qed

theorem computeFee_formula_witness:
  "unat (computeFee 100000 edgeAT) = 1000 + 100000 * 1000 div 1000000"
  using computeFee_formula [of 100000 edgeAT] by (simp add: edgeAT_def)

lemma sint_of_nat_small:
  assumes "n < 2 ^ 63"
  shows "sint (of_nat n :: 64 word) = int n"
proof -
  have "sint (of_nat n :: 64 word) = signed_take_bit 63 (int n)"
    using sint_sbintrunc' [of "int n", where ?'a = 64] by simp
  also have "\<dots> = int n"
    using assms by (intro signed_take_bit_int_eq_self) simp_all
  finally show ?thesis .
qed

lemma sdiv_nonneg:
  "int n sdiv 1000000000 = int (n div 1000000000)"
  by (cases "n = 0") (simp_all add: signed_divide_int_def zdiv_int)

lemma int64_quo_of_nat:
  assumes "n < 2 ^ 63"
  shows "int64_quo (of_nat n) 1000000000 = of_nat (n div 1000000000)"
proof -
  have "sint (of_nat n :: 64 word) sdiv sint (1000000000 :: 64 word)
          = int (n div 1000000000)"
    using sdiv_nonneg [of n] by (simp add: sint_of_nat_small [OF assms])
  then show ?thesis
    unfolding int64_quo_def by simp
qed

lemma edgeWeight_of_nat:
  assumes "p = unat lockedAmt * unat timeLockDelta * 15"
  shows "edgeWeight lockedAmt fee0 timeLockDelta = fee0 + int64_quo (of_nat p) 1000000000"
proof -
  have "lockedAmt * ucast timeLockDelta * RiskFactorBillionths = of_nat p"
    unfolding assms RiskFactorBillionths_def by simp
  then show ?thesis
    by (simp add: edgeWeight_def Let_def)
qed

lemma edgeWeight_no_overflow:
  assumes "unat lockedAmt * unat timeLockDelta * 15 < 2 ^ 63"
  shows "edgeWeight lockedAmt fee0 timeLockDelta =
     of_nat (unat fee0 + unat lockedAmt * unat timeLockDelta * 15 div 1000000000)"
  unfolding edgeWeight_of_nat [OF refl] int64_quo_of_nat [OF assms] by simp

text \<open>
  Claim C3, amended. \<^verbatim>\<open>edgeWeight\<close> equals \<open>fee + \<lfloor>lockedAmt * timeLockDelta * 15 / 1000000000\<rfloor>\<close>
  as exact integers whenever the product \<open>lockedAmt * timeLockDelta * 15\<close> and the sum stay
  below \<open>2 ^ 63\<close>. The code multiplies in plain \<^verbatim>\<open>int64\<close>; beyond that bound the product
  wraps (see the counterexample below).
\<close>

theorem edgeWeight_exact:
  assumes "unat lockedAmt * unat timeLockDelta * 15 < 2 ^ 63"
    and "unat fee0 + unat lockedAmt * unat timeLockDelta * 15 div 1000000000 < 2 ^ 63"
  shows "sint (edgeWeight lockedAmt fee0 timeLockDelta) =
     int (unat fee0 + unat lockedAmt * unat timeLockDelta * 15 div 1000000000)"
proof -
  let ?q = "unat lockedAmt * unat timeLockDelta * 15 div 1000000000"
  have "edgeWeight lockedAmt fee0 timeLockDelta = of_nat (unat fee0 + ?q)"
    using assms(1) by (rule edgeWeight_no_overflow)
  then show ?thesis
    using sint_of_nat_small [OF assms(2)] by simp
qed

text \<open>
  The bound covers every locked amount up to \<open>2 ^ 43\<close> with any 16-bit time lock delta.
\<close>

lemma edgeWeight_exact_upto_2_43:
  assumes "unat lockedAmt \<le> 2 ^ 43" and "unat fee0 < 2 ^ 62"
  shows "sint (edgeWeight lockedAmt fee0 timeLockDelta) =
     int (unat fee0 + unat lockedAmt * unat timeLockDelta * 15 div 1000000000)"
proof -
  have d: "unat timeLockDelta < 65536"
    using unsigned_less [of timeLockDelta, where 'a = nat] by simp
  have "unat lockedAmt * unat timeLockDelta \<le> 2 ^ 43 * 65535"
    using assms(1) d by (intro mult_mono) simp_all
  then have p: "unat lockedAmt * unat timeLockDelta * 15 \<le> 2 ^ 43 * 65535 * 15"
    by simp
  then have p': "unat lockedAmt * unat timeLockDelta * 15 < 2 ^ 63"
    by simp
  have "unat lockedAmt * unat timeLockDelta * 15 div 1000000000 \<le> 2 ^ 43 * 65535 * 15 div 1000000000"
    using p by (rule div_le_mono)
  then have s: "unat fee0 + unat lockedAmt * unat timeLockDelta * 15 div 1000000000 < 2 ^ 63"
    using assms(2) by simp
  show ?thesis
    unfolding edgeWeight_no_overflow [OF p'] using sint_of_nat_small [OF s] by simp
qed

text \<open>
  Claim C3 as stated fails: at \<open>lockedAmt = 2 ^ 44\<close> and \<open>timeLockDelta = 65535\<close> the 64-bit
  product wraps and the weight is negative, where the exact value is 17293558686.
\<close>

theorem edgeWeight_overflow_counterexample:
  "sint (edgeWeight (2 ^ 44) 0 65535) = - 1153185387 \<and>
   int (unat (0 :: 64 word) + unat (2 ^ 44 :: 64 word) * unat (65535 :: 16 word) * 15 div 1000000000)
     = 17293558686"
  by (simp add: edgeWeight_def RiskFactorBillionths_def int64_quo_def signed_divide_int_def)

theorem edgeWeight_exact_witness:
  "sint (edgeWeight (2 ^ 42) 1100 65535) = 4323390771"
  using edgeWeight_exact [of "2 ^ 42" 65535 1100] by simp

section \<open>Edge relaxation: proofs\<close>

lemma processEdge_checks_dist:
  assumes "processEdge_checks loc origin r amt fromNode edge bandwidth toNode st = Some d"
  shows "sint (dist d) < sint (dist (lookupDist (distance st) fromNode))"
  using assms
  by (auto simp: processEdge_checks_def Let_def split: if_splits)

lemma processEdge_zero:
  "TimeLockDelta edge = 0 \<Longrightarrow>
   processEdge loc origin r amt fromNode edge bandwidth toNode st = st"
  by (simp add: processEdge_def split: option.splits)

lemma processEdge_nonzero:
  assumes "processEdge_checks loc origin r amt fromNode edge bandwidth toNode st = Some d"
    and "TimeLockDelta edge \<noteq> 0"
  shows "processEdge loc origin r amt fromNode edge bandwidth toNode st \<noteq> st"
proof
  assume eq: "processEdge loc origin r amt fromNode edge bandwidth toNode st = st"
  have "distance (processEdge loc origin r amt fromNode edge bandwidth toNode st) fromNode = Some d"
    using assms by (simp add: processEdge_def)
  then have "lookupDist (distance st) fromNode = d"
    unfolding eq by (simp add: lookupDist_def)
  with processEdge_checks_dist [OF assms(1)] show False by simp
qed

text \<open>
  Claim C5, amended. \<^verbatim>\<open>processEdge\<close> leaves the search state as it is on every edge with
  \<^verbatim>\<open>TimeLockDelta == 0\<close>; and an edge that passes the checks before line 738 is rejected
  exactly when its \<^verbatim>\<open>TimeLockDelta\<close> is 0, whether its tail is the origin vertex or not.
  The origin is exempt only from the fee and from the time lock in the weight (lines
  694-699).
\<close>

theorem processEdge_zero_timelock:
  "(TimeLockDelta edge = 0 \<longrightarrow>
      processEdge loc origin r amt fromNode edge bandwidth toNode st = st) \<and>
   (processEdge_checks loc origin r amt fromNode edge bandwidth toNode st = Some d \<longrightarrow>
      (processEdge loc origin r amt fromNode edge bandwidth toNode st = st) =
      (TimeLockDelta edge = 0))"
  using processEdge_zero processEdge_nonzero by blast

lemma checks_ST0:
  "processEdge_checks locatorOf (vertexOf 83) noRestrictions 100000 (vertexOf 83) edgeST0
      1000000 (vertexOf 84) varsST
    = Some \<lparr>dist = 0, node = Some (vertexOf 83), amountToReceive = 100000, fee = 0\<rparr>"
  by (simp add: processEdge_checks_def Let_def noRestrictions_def edgeST0_def varsST_def
      vertexOf_def lookupDist_def locatorOf_def ChanUpdateDisabled_def noFeeLimit_def
      edgeWeight_def int64_quo_def RiskFactorBillionths_def infinity_def)

lemma checks_ST40:
  "processEdge_checks locatorOf (vertexOf 83) noRestrictions 100000 (vertexOf 83)
      (edgeST0\<lparr>TimeLockDelta := 40\<rparr>) 1000000 (vertexOf 84) varsST
    = Some \<lparr>dist = 0, node = Some (vertexOf 83), amountToReceive = 100000, fee = 0\<rparr>"
  by (simp add: processEdge_checks_def Let_def noRestrictions_def edgeST0_def varsST_def
      vertexOf_def lookupDist_def locatorOf_def ChanUpdateDisabled_def noFeeLimit_def
      edgeWeight_def int64_quo_def RiskFactorBillionths_def infinity_def)

text \<open>
  Claim C5 as stated fails: the edge from the origin \<open>S\<close> to \<open>T\<close> with delta 0 passes every
  other check and is rejected, the state unchanged; with delta 40 the same edge is
  recorded.
\<close>

theorem processEdge_origin_zero_timelock_counterexample:
  "processEdge_checks locatorOf (vertexOf 83) noRestrictions 100000 (vertexOf 83) edgeST0
      1000000 (vertexOf 84) varsST
    = Some \<lparr>dist = 0, node = Some (vertexOf 83), amountToReceive = 100000, fee = 0\<rparr> \<and>
   TimeLockDelta edgeST0 = 0 \<and>
   processEdge locatorOf (vertexOf 83) noRestrictions 100000 (vertexOf 83) edgeST0
      1000000 (vertexOf 84) varsST = varsST \<and>
   processEdge locatorOf (vertexOf 83) noRestrictions 100000 (vertexOf 83)
      (edgeST0\<lparr>TimeLockDelta := 40\<rparr>) 1000000 (vertexOf 84) varsST
    = varsST\<lparr>distance := (distance varsST)(vertexOf 83 \<mapsto>
                 \<lparr>dist = 0, node = Some (vertexOf 83), amountToReceive = 100000, fee = 0\<rparr>),
              nextMap := [vertexOf 83 \<mapsto> edgeST0\<lparr>TimeLockDelta := 40\<rparr>],
              nodeHeap := [\<lparr>dist = 0, node = Some (vertexOf 83), amountToReceive = 100000,
                             fee = 0\<rparr>]\<rparr>"
  by (simp add: processEdge_def checks_ST0 checks_ST40 heap_Push_def heap_up.simps)
     (simp add: edgeST0_def varsST_def)

theorem processEdge_zero_timelock_witness:
  "processEdge locatorOf (vertexOf 83) noRestrictions 100000 (vertexOf 83) edgeST0
      1000000 (vertexOf 84) varsST = varsST \<and>
   processEdge locatorOf (vertexOf 83) noRestrictions 100000 (vertexOf 83)
      (edgeST0\<lparr>TimeLockDelta := 40\<rparr>) 1000000 (vertexOf 84) varsST \<noteq> varsST"
proof -
  have z: "TimeLockDelta edgeST0 = 0" and nz: "TimeLockDelta (edgeST0\<lparr>TimeLockDelta := 40\<rparr>) \<noteq> 0"
    by (simp_all add: edgeST0_def)
  show ?thesis
    using processEdge_zero_timelock [of edgeST0 locatorOf "vertexOf 83" noRestrictions 100000
        "vertexOf 83" 1000000 "vertexOf 84" varsST] z
      processEdge_zero_timelock [of "edgeST0\<lparr>TimeLockDelta := 40\<rparr>" locatorOf "vertexOf 83"
        noRestrictions 100000 "vertexOf 83" 1000000 "vertexOf 84" varsST, THEN conjunct2,
        rule_format, OF checks_ST40] nz
    by blast
qed

section \<open>The heaps: proofs\<close>

lemma length_heap_swap: "length (heap_swap h i j) = length h"
  by (simp add: heap_swap_def)

lemma set_heap_swap:
  "i < length h \<Longrightarrow> j < length h \<Longrightarrow> set (heap_swap h i j) = set h"
  by (simp add: heap_swap_def set_swap)

lemma heap_up_length_set:
  "j < length h \<Longrightarrow> length (heap_up lt h j) = length h \<and> set (heap_up lt h j) = set h"
proof (induction lt h j rule: heap_up.induct)
  case (1 lt h j)
  let ?i = "(j - 1) div 2"
  show ?case
  proof (cases "?i = j \<or> \<not> lt (h ! j) (h ! ?i)")
    case True
    then show ?thesis
      by (subst (1 2) heap_up.simps) (simp add: Let_def)
  next
    case False
    have i: "?i < length h" using "1.prems" by simp
    have ih: "length (heap_up lt (heap_swap h ?i j) ?i) = length (heap_swap h ?i j) \<and>
              set (heap_up lt (heap_swap h ?i j) ?i) = set (heap_swap h ?i j)"
      using "1.IH" [OF refl False] i by (simp add: length_heap_swap)
    have "heap_up lt h j = heap_up lt (heap_swap h ?i j) ?i"
      using False by (subst heap_up.simps) (simp add: Let_def)
    then show ?thesis
      using ih i "1.prems" by (simp add: length_heap_swap set_heap_swap)
  qed
qed

lemma heap_child_bounds:
  "j1 < n \<Longrightarrow> heap_child lt h j1 n < n" "j1 \<le> heap_child lt h j1 n"
  "heap_child lt h j1 n \<le> j1 + 1"
  by (simp_all add: heap_child_def)

lemma heap_down_length_set:
  "n \<le> length h \<Longrightarrow>
   length (heap_down lt h i n) = length h \<and> set (heap_down lt h i n) = set h \<and>
   (\<forall>k. n \<le> k \<longrightarrow> heap_down lt h i n ! k = h ! k)"
proof (induction lt h i n rule: heap_down.induct)
  case (1 lt h i n)
  define j where "j = heap_child lt h (2 * i + 1) n"
  show ?case
  proof (cases "2 * i + 1 \<ge> n \<or> \<not> lt (h ! j) (h ! i)")
    case True
    then have "heap_down lt h i n = h"
      by (subst heap_down.simps) (auto simp: Let_def j_def)
    then show ?thesis by simp
  next
    case False
    then have j1: "2 * i + 1 < n" and less: "lt (h ! j) (h ! i)" by auto
    have j: "j < n" unfolding j_def using j1 by (rule heap_child_bounds)
    have i: "i < n" using j1 by simp
    have eq: "heap_down lt h i n = heap_down lt (heap_swap h i j) j n"
      using j1 less by (subst heap_down.simps) (simp add: Let_def j_def)
    have ih: "length (heap_down lt (heap_swap h i j) j n) = length (heap_swap h i j) \<and>
          set (heap_down lt (heap_swap h i j) j n) = set (heap_swap h i j) \<and>
          (\<forall>k. n \<le> k \<longrightarrow> heap_down lt (heap_swap h i j) j n ! k = heap_swap h i j ! k)"
      using "1.IH" [OF refl _ j_def] j1 less "1.prems" by (simp add: length_heap_swap)
    have keep: "heap_swap h i j ! k = h ! k" if "n \<le> k" for k
      using that i j by (simp add: heap_swap_def)
    show ?thesis
      unfolding eq using ih i j "1.prems" keep
      by (simp add: length_heap_swap set_heap_swap)
  qed
qed

lemma set_heap_Push: "set (heap_Push lt h x) = insert x (set h)"
  using heap_up_length_set [of "length h" "h @ [x]" lt] by (simp add: heap_Push_def)


lemma heap_Pop_None: "heap_Pop lt h = None \<longleftrightarrow> h = []"
  by (simp add: heap_Pop_def Let_def)

lemma heap_Pop_Some:
  assumes "heap_Pop lt h = Some (x, h')"
  shows "set h = insert x (set h') \<and> length h = Suc (length h') \<and> x = h ! 0"
proof -
  have ne: "h \<noteq> []" using assms by (auto simp: heap_Pop_def)
  let ?n = "length h - 1"
  let ?s = "heap_swap h 0 ?n"
  let ?d = "heap_down lt ?s 0 ?n"
  have n: "?n < length h" and z: "0 < length h" using ne by simp_all
  have d: "length ?d = length h" "set ?d = set h" "?d ! ?n = ?s ! ?n"
    using heap_down_length_set [of ?n ?s lt 0] n z
    by (simp_all add: length_heap_swap set_heap_swap)
  have dne: "?d \<noteq> []" using d(1) ne by auto
  have x: "x = last ?d" and h': "h' = butlast ?d"
    using assms ne by (simp_all add: heap_Pop_def Let_def)
  have "set ?d = insert (last ?d) (set (butlast ?d))"
    using dne by (metis append_butlast_last_id list.simps(15) rotate1.simps(2) set_rotate1)
  moreover have "last ?d = h ! 0"
    using dne d n by (simp add: last_conv_nth heap_swap_def)
  ultimately show ?thesis
    using d x h' ne by (simp add: )
qed

section \<open>K shortest paths: proofs\<close>

lemma findPath_stop_eq:
  "stopAtMaxHopsExceeded r \<Longrightarrow>
   findPath loc g r sourceNode target amt = findPath_stop loc g r sourceNode target amt"
  by (simp add: findPath_def findPath_stop_def split: option.splits sum.splits)

lemma findKPaths_loop_done:
  "\<not> v < numPaths \<Longrightarrow>
   findKPaths_loop loc g r target amt numPaths k sps cand v = Some (Inr sps)"
  by (subst findKPaths_loop.simps) simp

text \<open>
  Claim C7, amended. For every graph and every seed path of at most 20 edges, \<^verbatim>\<open>findKPaths\<close>
  with \<^verbatim>\<open>numPaths = 1\<close> returns exactly one path: the seed itself when the source is not the
  origin vertex (a later segment), and otherwise the seed behind the self edge of the source.
\<close>

theorem findKPaths_one:
  assumes "length seed \<le> 20"
  shows "findKPaths loc g r source target amt seed 1 =
     Some (Inr [if originVertex g \<noteq> None \<and> source \<noteq> the (originVertex g)
                then seed else selfEdge source # seed])"
proof -
  have "findKPaths_loop loc g r target amt 1 1 [selfEdge source # seed] [] 1
          = Some (Inr [selfEdge source # seed])"
    by (rule findKPaths_loop_done) simp
  then show ?thesis
    using assms by (simp add: findKPaths_def HopLimit_def Let_def)
qed

text \<open>
  Claim C7 as stated fails where the source is the origin vertex: the path that comes back
  starts with the self edge, so it is not the seed.
\<close>

theorem findKPaths_one_counterexample:
  "findKPaths locatorOf params5 noRestrictions (vertexOf 83) (vertexOf 84) 100000
      [edgeTo 3 66 0, edgeTo 4 67 1, edgeTo 5 84 1] 1
     = Some (Inr [[selfEdge (vertexOf 83), edgeTo 3 66 0, edgeTo 4 67 1, edgeTo 5 84 1]]) \<and>
   Some (Inr [[selfEdge (vertexOf 83), edgeTo 3 66 0, edgeTo 4 67 1, edgeTo 5 84 1]])
     \<noteq> (Some (Inr [[edgeTo 3 66 0, edgeTo 4 67 1, edgeTo 5 84 1]])
          :: (error + ChannelEdgePolicy list list) option)"
proof -
  have "findKPaths_loop locatorOf params5 noRestrictions (vertexOf 84) 100000 1 1
          [selfEdge (vertexOf 83) # [edgeTo 3 66 0, edgeTo 4 67 1, edgeTo 5 84 1]] [] 1
          = Some (Inr [selfEdge (vertexOf 83) # [edgeTo 3 66 0, edgeTo 4 67 1, edgeTo 5 84 1]])"
    by (rule findKPaths_loop_done) simp
  then show ?thesis
    by (simp add: findKPaths_def HopLimit_def Let_def params5_def)
qed

theorem findKPaths_one_witness:
  "findKPaths locatorOf params5 noRestrictions (vertexOf 66) (vertexOf 84) 100000
      [edgeTo 4 67 1, edgeTo 5 84 1] 1
     = Some (Inr [[edgeTo 4 67 1, edgeTo 5 84 1]])"
proof -
  have "length [edgeTo 4 67 1, edgeTo 5 84 1] \<le> 20" by simp
  from findKPaths_one [OF this, of locatorOf params5 noRestrictions "vertexOf 66" "vertexOf 84"
      100000]
  show ?thesis by (simp add: params5_def vertexOf_def)
qed

section \<open>Stitching: proofs\<close>

lemma findPaths_stitch_inv:
  assumes "\<forall>p\<in>set cand. length (pathHops p) \<le> HopLimit"
  shows "\<forall>p\<in>set (snd (findPaths_stitch i xs (segs, cand))). length (pathHops p) \<le> HopLimit"
  using assms
proof (induction i xs "(segs, cand)" arbitrary: segs cand rule: findPaths_stitch.induct)
  case (1 i segs cand)
  then show ?case by simp
next
  case (2 i j segKPath rest segs cand)
  then show ?case
    by (auto simp: Let_def set_heap_Push not_less)
qed


lemma findPaths_stitch_new:
  "\<forall>p\<in>set (snd (findPaths_stitch i xs (segs, cand))) - set cand.
     length (pathHops p) \<le> HopLimit \<and> pathDist p = length (pathHops p)"
proof (induction i xs "(segs, cand)" arbitrary: segs cand rule: findPaths_stitch.induct)
  case (1 i segs cand)
  then show ?case by simp
next
  case (2 i j segKPath rest segs cand)
  define segs' where "segs' = (if i = 0 \<and> j = 0 then segs[0 := segKPath] else segs)"
  define sp where "sp = stitchPath segs' i segKPath"
  define p0 where "p0 = \<lparr>pathHops = sp, pathDist = length sp\<rparr>"
  show ?case
  proof (cases "i \<noteq> 0 \<and> j = 0")
    case True
    then show ?thesis using "2.hyps"(1) by simp
  next
    case skip: False
    then have c: "(i \<noteq> 0 \<and> j = 0) = False" by simp
    show ?thesis
    proof (cases "length sp > HopLimit")
      case True
      have "findPaths_stitch i ((j, segKPath) # rest) (segs, cand)
              = findPaths_stitch i rest (segs', cand)"
        using True unfolding sp_def segs'_def by (simp only: findPaths_stitch.simps c Let_def if_False if_True)
      then show ?thesis
        using "2.hyps"(2) [OF skip segs'_def sp_def refl] True by simp
    next
      case False
      have eq: "findPaths_stitch i ((j, segKPath) # rest) (segs, cand)
              = findPaths_stitch i rest (segs', heap_Push pathLess cand p0)"
        using False unfolding p0_def sp_def segs'_def
        by (simp only: findPaths_stitch.simps c Let_def if_False if_True)
      have ih: "\<forall>p\<in>set (snd (findPaths_stitch i rest (segs', heap_Push pathLess cand p0)))
                   - insert p0 (set cand).
                 length (pathHops p) \<le> HopLimit \<and> pathDist p = length (pathHops p)"
        using "2.hyps"(3) [OF skip segs'_def sp_def refl] False
        by (simp add: set_heap_Push p0_def)
      have ok: "length (pathHops p0) \<le> HopLimit \<and> pathDist p0 = length (pathHops p0)"
        using False by (simp add: p0_def)
      show ?thesis
        unfolding eq using ih ok by blast
    qed
  qed
qed

lemma findPaths_alternatives_inv:
  assumes "findPaths_alternatives loc gr hints origin amt limit numPaths spf ignored params
             is (segs, cand) = Some (Inr (segs', cand'))"
    and "\<forall>p\<in>set cand. length (pathHops p) \<le> HopLimit"
  shows "\<forall>p\<in>set cand'. length (pathHops p) \<le> HopLimit"
  using assms
proof (induction "is" arbitrary: segs cand)
  case Nil
  then show ?case by simp
next
  case (Cons i rest)
  obtain sSrc sDest pegged where pi: "params ! i = (sSrc, sDest, pegged)"
    by (cases "params ! i") auto
  show ?case
  proof (cases pegged)
    case True
    then show ?thesis
      using Cons.prems Cons.IH [of segs cand] pi by simp
  next
    case False
    then obtain segKPaths where
      rec: "findPaths_alternatives loc gr hints origin amt limit numPaths spf ignored params rest
              (findPaths_stitch i (zip [0..<length segKPaths] segKPaths) (segs, cand))
            = Some (Inr (segs', cand'))"
      using Cons.prems(1) pi by (auto split: option.splits sum.splits)
    obtain segs2 cand2 where
      st: "findPaths_stitch i (zip [0..<length segKPaths] segKPaths) (segs, cand) = (segs2, cand2)"
      by (cases "findPaths_stitch i (zip [0..<length segKPaths] segKPaths) (segs, cand)") auto
    have "\<forall>p\<in>set cand2. length (pathHops p) \<le> HopLimit"
      using findPaths_stitch_inv [OF Cons.prems(2), of i "zip [0..<length segKPaths] segKPaths" segs]
      by (simp add: st)
    then show ?thesis
      using Cons.IH [of segs2 cand2] rec by (simp add: st)
  qed
qed

lemma findPaths_select_inv:
  assumes "\<forall>p\<in>set cand. length (pathHops p) \<le> HopLimit"
    and "\<forall>q\<in>set sp. length q \<le> HopLimit"
  shows "\<forall>q\<in>set (findPaths_select n cand sp). length q \<le> HopLimit"
  using assms
proof (induction n arbitrary: cand sp)
  case 0
  then show ?case by simp
next
  case (Suc n)
  show ?case
  proof (cases "heap_Pop pathLess cand")
    case None
    then show ?thesis using Suc.prems by simp
  next
    case (Some a)
    obtain p cand' where a: "a = (p, cand')" by (cases a) auto
    have s: "set cand = insert p (set cand')"
      using heap_Pop_Some [of pathLess cand p cand'] Some a by simp
    have "\<forall>q\<in>set (findPaths_select n cand' (sp @ [pathHops p])). length q \<le> HopLimit"
      using Suc.prems s by (intro Suc.IH) auto
    then show ?thesis using Some a by simp
  qed
qed

lemma findPaths_hop_limit_aux:
  assumes "findPaths loc gr source target amt limit numPaths hints pegs = Some (Inr paths)"
  shows "\<forall>p\<in>set paths. length p \<le> HopLimit"
proof -
  from assms obtain st :: "'a findPaths_vars" and segs cand where
    alt: "findPaths_alternatives loc gr hints source amt limit numPaths
            (computePathFee amt (startingPath st)) (allIgnoredEdges st) (segParams st)
            [0..<length (segPaths st)] (segPaths st, []) = Some (Inr (segs, cand))"
    and sel: "paths = findPaths_select (unat numPaths) cand []"
    by (auto simp: findPaths_def split: sum.splits option.splits if_splits)
  have "\<forall>p\<in>set cand. length (pathHops p) \<le> HopLimit"
    using findPaths_alternatives_inv [OF alt] by simp
  then show ?thesis
    unfolding sel by (intro findPaths_select_inv) simp_all
qed

text \<open>
  Claim C8. In \<^verbatim>\<open>findPaths\<close> every stitched candidate that enters the candidate heap has at
  most 20 hops (one of more than 20 is not pushed), and every path that \<^verbatim>\<open>findPaths\<close>
  returns has at most 20 edges.
\<close>

theorem findPaths_hop_limit:
  "(\<forall>p\<in>set (snd (findPaths_stitch i xs (segs, cand))) - set cand.
      length (pathHops p) \<le> 20 \<and> pathDist p = length (pathHops p)) \<and>
   (\<forall>paths. findPaths loc gr source target amt limit numPaths hints pegs = Some (Inr paths) \<longrightarrow>
      (\<forall>p\<in>set paths. length p \<le> 20))"
  using findPaths_stitch_new [of i xs segs cand] findPaths_hop_limit_aux [of loc gr source target amt limit numPaths hints pegs]
  by (simp add: HopLimit_def)

lemma findPaths_graph5:
  "findPaths locatorOf graph5 (vertexOf 83) (vertexOf 84) 100000 noFeeLimit 2 Map.empty []
    = Some (Inr [[selfEdge (vertexOf 83), edgeTo 1 65 0, edgeTo 2 84 1000],
                 [selfEdge (vertexOf 83), edgeTo 3 66 0, edgeTo 4 67 1, edgeTo 5 84 1]])"
  by code_simp

theorem findPaths_hop_limit_witness:
  "findPaths locatorOf graph5 (vertexOf 83) (vertexOf 84) 100000 noFeeLimit 2 Map.empty []
    = Some (Inr [[selfEdge (vertexOf 83), edgeTo 1 65 0, edgeTo 2 84 1000],
                 [selfEdge (vertexOf 83), edgeTo 3 66 0, edgeTo 4 67 1, edgeTo 5 84 1]]) \<and>
   length [selfEdge (vertexOf 83), edgeTo 1 65 0, edgeTo 2 84 1000] \<le> 20 \<and>
   length [selfEdge (vertexOf 83), edgeTo 3 66 0, edgeTo 4 67 1, edgeTo 5 84 1] \<le> 20"
  using findPaths_hop_limit [of 0 "[]" "[]" "[]" locatorOf graph5 "vertexOf 83" "vertexOf 84" 100000
      noFeeLimit 2 Map.empty "[]", THEN conjunct2, rule_format, OF findPaths_graph5]
    findPaths_graph5
  by simp

section \<open>The order of the K shortest paths: proofs\<close>
















lemma findKPaths_loop_step:
  assumes "v < numPaths"
    and "findKPaths_spurs loc g r target amt sps (sps ! unat (k - 1)) v
           [0..<length (sps ! unat (k - 1)) - 1] cand = Some (Inr cand1)"
    and "heap_Pop pathLess cand1 = Some (p, cand2)"
  shows "findKPaths_loop loc g r target amt numPaths k sps cand v =
         findKPaths_loop loc g r target amt numPaths (k + 1) (sps @ [pathHops p]) cand2
           (if length (pathHops p) \<le> HopLimit + 1 then v + 1 else v)"
  using assms by (subst findKPaths_loop.simps) simp




lemma findKPaths_rounds_loop:
  assumes "findKPaths_rounds loc g r target amt numPaths k sps cand v rounds"
  shows "findKPaths_loop loc g r target amt numPaths k sps cand v =
           Some (Inr (sps @ map (\<lambda>(p, c). pathHops p) rounds))"
  using assms
proof (induction rounds arbitrary: k sps cand v)
  case Nil
  then show ?case
    by (subst findKPaths_loop.simps) (auto split: option.splits sum.splits)
next
  case (Cons a rounds)
  obtain p c where a: "a = (p, c)" by (cases a) auto
  from Cons.prems(1) obtain cand2 where
    lt: "v < numPaths"
    and sp: "findKPaths_spurs loc g r target amt sps (sps ! unat (k - 1)) v
           [0..<length (sps ! unat (k - 1)) - 1] cand = Some (Inr c)"
    and pop: "heap_Pop pathLess c = Some (p, cand2)"
    and rest: "findKPaths_rounds loc g r target amt numPaths (k + 1) (sps @ [pathHops p]) cand2
                 (if length (pathHops p) \<le> HopLimit + 1 then v + 1 else v) rounds"
    unfolding a by (auto split: option.splits)
  show ?case
    unfolding findKPaths_loop_step [OF lt sp pop] Cons.IH [OF rest] a by simp
qed








end
